theory Spec2Isabelle
  imports Complex_Main "HOL-Library.Word"
begin

unbundle bit_operations_syntax

chapter \<open>The model\<close>

section \<open>Floating-point numbers (Go \<^verbatim>\<open>float64\<close>)\<close>

text \<open>
  A \<^verbatim>\<open>float64\<close> is an IEEE 754 binary64 value: a zero with its sign, a finite number
  other than zero, an infinity with its sign, or a NaN (one NaN stands for all of
  them). The flag of a zero or an infinity is true for the negative one. The finite
  numbers are the reals \<open>n * 2 ^ (e - 52)\<close> with \<open>- 1022 \<le> e \<le> 1023\<close> and
  \<open>\<bar>n\<bar> < 2 ^ 53\<close>.
\<close>

datatype float64 = Zero64 bool | Fin64 real | Inf64 bool | NaN64

fun isNeg :: "float64 \<Rightarrow> bool" where
  "isNeg (Zero64 s) = s"
| "isNeg (Fin64 r) = (r < 0)"
| "isNeg (Inf64 s) = s"
| "isNeg NaN64 = False"

fun valOf :: "float64 \<Rightarrow> real" where
  "valOf (Fin64 r) = r"
| "valOf _ = 0"

fun isInf :: "float64 \<Rightarrow> bool" where
  "isInf (Inf64 s) = True"
| "isInf _ = False"

text \<open>
  Rounding to nearest, ties to even, of a real number other than zero. The unit in the
  last place of \<open>x\<close> is \<open>2 ^ (e - 52)\<close> for \<open>2 ^ e \<le> \<bar>x\<bar> < 2 ^ (e + 1)\<close>, and
  \<open>2 ^ (- 1074)\<close> below the normal range; \<open>x\<close> is rounded to a multiple of it. A
  result of magnitude \<open>2 ^ 1024\<close> is an overflow and gives an infinity; a result of
  zero is an underflow and gives the zero with the sign of \<open>x\<close>.
\<close>

definition roundEven :: "real \<Rightarrow> int" where
  "roundEven m =
     (let f = \<lfloor>m\<rfloor>; d = m - of_int f
      in if d < 1 / 2 then f else if 1 / 2 < d then f + 1 else if even f then f else f + 1)"

definition binade :: "real \<Rightarrow> int" where
  "binade x = (if \<bar>x\<bar> < 2 powi (- 1022) then - 1022 else \<lfloor>log 2 \<bar>x\<bar>\<rfloor>)"

definition round64 :: "real \<Rightarrow> float64" where
  "round64 x =
     (let ulp = 2 powi (binade x - 52);
          n = roundEven (x / ulp);
          r = of_int n * ulp
      in if n = 0 then Zero64 (x < 0)
         else if 2 powi 1024 \<le> \<bar>r\<bar> then Inf64 (x < 0)
         else Fin64 r)"

text \<open>
  Subtraction, multiplication and division: the special cases of IEEE 754, and otherwise
  the exact result, rounded. An exact difference of zero is the positive zero, except
  that \<open>(- 0) - (+ 0)\<close> is the negative zero.
\<close>

definition fsub :: "float64 \<Rightarrow> float64 \<Rightarrow> float64" where
  "fsub x y =
     (if x = NaN64 \<or> y = NaN64 then NaN64
      else if isInf x \<and> isInf y then (if isNeg x = isNeg y then NaN64 else x)
      else if isInf x then x
      else if isInf y then Inf64 (\<not> isNeg y)
      else if valOf x - valOf y = 0 then Zero64 (isNeg x \<and> \<not> isNeg y)
      else round64 (valOf x - valOf y))"

definition fmul :: "float64 \<Rightarrow> float64 \<Rightarrow> float64" where
  "fmul x y =
     (if x = NaN64 \<or> y = NaN64 then NaN64
      else if isInf x \<or> isInf y then
        (if (\<not> isInf x \<and> valOf x = 0) \<or> (\<not> isInf y \<and> valOf y = 0) then NaN64
         else Inf64 (isNeg x \<noteq> isNeg y))
      else if valOf x * valOf y = 0 then Zero64 (isNeg x \<noteq> isNeg y)
      else round64 (valOf x * valOf y))"

definition fdiv :: "float64 \<Rightarrow> float64 \<Rightarrow> float64" where
  "fdiv x y =
     (if x = NaN64 \<or> y = NaN64 then NaN64
      else if isInf x then (if isInf y then NaN64 else Inf64 (isNeg x \<noteq> isNeg y))
      else if isInf y then Zero64 (isNeg x \<noteq> isNeg y)
      else if valOf y = 0 then (if valOf x = 0 then NaN64 else Inf64 (isNeg x \<noteq> isNeg y))
      else if valOf x = 0 then Zero64 (isNeg x \<noteq> isNeg y)
      else round64 (valOf x / valOf y))"

text \<open>The conversion \<^verbatim>\<open>float64(i)\<close> of an integer.\<close>

definition ofInt :: "int \<Rightarrow> float64" where
  "ofInt i = (if i = 0 then Zero64 False else round64 (real_of_int i))"

text \<open>
  The comparisons: every comparison with a NaN is false, the two zeros are equal, and
  the infinities lie below and above the finite numbers.
\<close>

fun tier :: "float64 \<Rightarrow> int" where
  "tier (Inf64 s) = (if s then - 1 else 1)"
| "tier _ = 0"

definition fle :: "float64 \<Rightarrow> float64 \<Rightarrow> bool" where
  "fle x y \<longleftrightarrow>
     x \<noteq> NaN64 \<and> y \<noteq> NaN64 \<and> (tier x < tier y \<or> (tier x = tier y \<and> valOf x \<le> valOf y))"

definition flt :: "float64 \<Rightarrow> float64 \<Rightarrow> bool" where
  "flt x y \<longleftrightarrow>
     x \<noteq> NaN64 \<and> y \<noteq> NaN64 \<and> (tier x < tier y \<or> (tier x = tier y \<and> valOf x < valOf y))"

definition fge :: "float64 \<Rightarrow> float64 \<Rightarrow> bool" where
  "fge x y \<longleftrightarrow> fle y x"

definition fgt :: "float64 \<Rightarrow> float64 \<Rightarrow> bool" where
  "fgt x y \<longleftrightarrow> flt y x"

section \<open>Persisted positions (package models)\<close>

text \<open>
  The Go struct \<^verbatim>\<open>Position\<close> with the fields the engine reads and writes. Prices and
  quantities are \<^verbatim>\<open>float64\<close>, the leverage is an \<^verbatim>\<open>int\<close>. Time stamps are nanoseconds as
  integers. The embedded \<^verbatim>\<open>User\<close> relation is kept as the Telegram id of the owner.
\<close>

datatype PositionStatus = PositionOpen | PositionClosed

record Position =
  ID :: nat
  PositionID :: string
  UserID :: nat
  UserTelegramID :: int
  CoinSymbol :: string
  Symbol :: string
  EntryPrice :: float64
  CurrentPrice :: float64
  Quantity :: float64
  Leverage :: int
  TakeProfitPrice :: float64
  CurrentPNL :: float64
  ROE :: float64
  Status :: PositionStatus
  OpenedAt :: int
  ClosedAt :: "int option"

text \<open>
  \<^verbatim>\<open>func (p *Position) CalculatePNL()\<close>. The early return leaves the receiver as it is.
  Every arithmetic operation of the source is one \<^verbatim>\<open>float64\<close> operation (no two of
  them can be fused into a multiply-add); the constants 0 and 100 are exact.
\<close>

definition CalculatePNL :: "Position \<Rightarrow> Position" where
  "CalculatePNL p =
     (if fle (EntryPrice p) (Zero64 False) \<or> fle (CurrentPrice p) (Zero64 False)
         \<or> fle (Quantity p) (Zero64 False) then p
      else
        let priceDiff = fsub (CurrentPrice p) (EntryPrice p);
            p1 = p\<lparr>CurrentPNL := fmul priceDiff (Quantity p)\<rparr>;
            margin = fdiv (fmul (EntryPrice p1) (Quantity p1)) (ofInt (Leverage p1))
        in if fgt margin (Zero64 False)
           then p1\<lparr>ROE := fmul (fdiv (CurrentPNL p1) margin) (Fin64 100)\<rparr>
           else p1)"

text \<open>The margin that \<^verbatim>\<open>CalculatePNL\<close> computes for a position.\<close>

definition computedMargin :: "Position \<Rightarrow> float64" where
  "computedMargin p = fdiv (fmul (EntryPrice p) (Quantity p)) (ofInt (Leverage p))"

text \<open>\<^verbatim>\<open>func (p *Position) ShouldTakeProfit() bool\<close>\<close>

definition ShouldTakeProfit :: "Position \<Rightarrow> bool" where
  "ShouldTakeProfit p \<longleftrightarrow> Status p = PositionOpen \<and> fge (CurrentPrice p) (TakeProfitPrice p)"

definition examplePosition :: Position where
  "examplePosition =
     \<lparr>ID = 1, PositionID = ''order-1'', UserID = 1, UserTelegramID = 42,
      CoinSymbol = ''TOSHI'', Symbol = ''TOSHIUSDT'',
      EntryPrice = Fin64 100, CurrentPrice = Fin64 150, Quantity = Fin64 2, Leverage = 10,
      TakeProfitPrice = Fin64 300, CurrentPNL = Zero64 False, ROE = Zero64 False,
      Status = PositionOpen, OpenedAt = 0, ClosedAt = None\<rparr>"

text \<open>
  A position of tiny but positive price and quantity, \<open>2 ^ (- 600)\<close> each (a
  \<^verbatim>\<open>float64\<close> of the normal range), whose return on equity was 9 before.
\<close>

definition tiny :: real where
  "tiny = 2 powi (- 600)"

definition tinyPosition :: Position where
  "tinyPosition =
     examplePosition\<lparr>EntryPrice := Fin64 tiny, CurrentPrice := Fin64 tiny,
       Quantity := Fin64 tiny, ROE := Fin64 9\<rparr>"

section \<open>Symbol extraction (services/upbit_monitor.go)\<close>

text \<open>
  Go strings are byte sequences in UTF-8, and so are the strings here. The two regular
  expressions of \<^verbatim>\<open>extractCoinSymbols\<close> only mention ASCII classes, and every byte of a
  multi-byte UTF-8 sequence is at least 128, so it is neither in \<^verbatim>\<open>[A-Z]\<close> nor a word
  character of \<^verbatim>\<open>\b\<close>: matching byte by byte is what the regexp engine computes.
\<close>

definition isUpperAZ :: "char \<Rightarrow> bool" where
  "isUpperAZ c \<longleftrightarrow> 65 \<le> (of_char c :: nat) \<and> (of_char c :: nat) \<le> 90"

definition isLowerAZ :: "char \<Rightarrow> bool" where
  "isLowerAZ c \<longleftrightarrow> 97 \<le> (of_char c :: nat) \<and> (of_char c :: nat) \<le> 122"

definition isDigit09 :: "char \<Rightarrow> bool" where
  "isDigit09 c \<longleftrightarrow> 48 \<le> (of_char c :: nat) \<and> (of_char c :: nat) \<le> 57"

definition isWordChar :: "char \<Rightarrow> bool" where
  "isWordChar c \<longleftrightarrow> isUpperAZ c \<or> isLowerAZ c \<or> isDigit09 c \<or> c = CHR ''_''"

text \<open>
  \<^verbatim>\<open>regexp.MustCompile(`\(([A-Z]+)\)`).FindAllStringSubmatch(title, -1)\<close>, giving the
  capture group of every match, leftmost first and without overlap. At an opening
  parenthesis the group is the whole run of capital letters that follows (a shorter one
  would be followed by a letter, not by the closing parenthesis); it must not be empty
  and must be followed by the closing parenthesis. After a match the scan goes on behind
  it, otherwise at the next byte.
\<close>

function findAllParenthesized :: "string \<Rightarrow> string list" where
  "findAllParenthesized [] = []"
| "findAllParenthesized (c # cs) =
     (if c = CHR ''('' then
        (let run = takeWhile isUpperAZ cs; rest = dropWhile isUpperAZ cs
         in case rest of
              [] \<Rightarrow> findAllParenthesized cs
            | d # ds \<Rightarrow>
                if run \<noteq> [] \<and> d = CHR '')'' then run # findAllParenthesized ds
                else findAllParenthesized cs)
      else findAllParenthesized cs)"
  by pat_completeness auto
termination
proof (relation "measure length", goal_cases)
  case 1 show ?case by simp
next
  case (2 c cs) then show ?case by simp
next
  case (3 c cs run rest d ds)
  then have "length (d # ds) \<le> length cs"
    by (metis length_dropWhile_le)
  then show ?case by simp
next
  case 4 then show ?case by simp
next
  case 5 then show ?case by simp
qed

text \<open>
  \<^verbatim>\<open>regexp.MustCompile(`\b([A-Z]{2,10})\b`).FindAllStringSubmatch(title, -1)\<close>. The flag
  says whether the byte before the current position is a word character (false at the
  start of the text). A match starts at a capital letter that follows no word character;
  its group is again the whole run of capital letters, since a shorter one would end
  between two word characters, where \<^verbatim>\<open>\b\<close> fails; the run has 2 to 10 letters and is
  followed by the end of the text or by a byte that is no word character.
\<close>

function findAllBare :: "bool \<Rightarrow> string \<Rightarrow> string list" where
  "findAllBare prevWord [] = []"
| "findAllBare prevWord (c # cs) =
     (let run = takeWhile isUpperAZ (c # cs); rest = dropWhile isUpperAZ (c # cs)
      in if \<not> prevWord \<and> isUpperAZ c \<and> 2 \<le> length run \<and> length run \<le> 10
            \<and> (case rest of [] \<Rightarrow> True | d # ds \<Rightarrow> \<not> isWordChar d)
         then run # findAllBare True rest
         else findAllBare (isWordChar c) cs)"
  by pat_completeness auto
termination
proof (relation "measure (\<lambda>(w, s). length s)", goal_cases)
  case 1 show ?case by simp
next
  case (2 prevWord c cs run rest)
  then show ?case by (auto simp: length_dropWhile_le le_imp_less_Suc)
next
  case 3 then show ?case by simp
qed

text \<open>
  \<^verbatim>\<open>strings.ToUpper\<close> and \<^verbatim>\<open>strings.TrimSpace\<close> on ASCII. In
  \<^verbatim>\<open>extractCoinSymbols\<close> both are applied to capture groups, which consist of capital
  ASCII letters. \<^verbatim>\<open>parseAnnouncements\<close> also trims the text of an element: Go trims the
  white space outside ASCII too, which consists of bytes that are no word characters
  and occur in no pattern, so the symbols found in the title are the same.
\<close>

definition toUpperChar :: "char \<Rightarrow> char" where
  "toUpperChar c = (if isLowerAZ c then char_of ((of_char c :: nat) - 32) else c)"

definition ToUpper :: "string \<Rightarrow> string" where
  "ToUpper s = map toUpperChar s"

definition isSpaceChar :: "char \<Rightarrow> bool" where
  "isSpaceChar c \<longleftrightarrow> (9 \<le> (of_char c :: nat) \<and> (of_char c :: nat) \<le> 13) \<or> c = CHR '' ''"

definition TrimSpace :: "string \<Rightarrow> string" where
  "TrimSpace s = rev (dropWhile isSpaceChar (rev (dropWhile isSpaceChar s)))"

text \<open>
  \<^verbatim>\<open>isValidCoinSymbol\<close>: the loop counts the letters and leaves with \<^verbatim>\<open>false\<close> (here
  \<open>None\<close>) at the first character that is neither a capital letter nor a digit; the
  final test uses Go's integer division \<^verbatim>\<open>len(symbol)/2\<close>.
\<close>

fun countLetters :: "nat \<Rightarrow> string \<Rightarrow> nat option" where
  "countLetters letterCount [] = Some letterCount"
| "countLetters letterCount (c # cs) =
     (if isUpperAZ c \<or> isDigit09 c then
        (if isUpperAZ c then countLetters (letterCount + 1) cs
         else countLetters letterCount cs)
      else None)"

definition isValidCoinSymbol :: "string \<Rightarrow> bool" where
  "isValidCoinSymbol symbol =
     (if length symbol < 2 \<or> length symbol > 10 then False
      else case countLetters 0 symbol of
             None \<Rightarrow> False
           | Some letterCount \<Rightarrow> letterCount \<ge> length symbol div 2)"

text \<open>\<^verbatim>\<open>isCommonWord\<close>: membership in the literal map of the source.\<close>

definition commonWords :: "string list" where
  "commonWords =
     [''FOR'', ''THE'', ''AND'', ''WITH'', ''MARKET'',
      ''SUPPORT'', ''NEW'', ''TRADING'', ''KRW'', ''USDT'',
      ''USD'', ''BTC'', ''ETH'', ''ANNOUNCEMENT'']"

definition isCommonWord :: "string \<Rightarrow> bool" where
  "isCommonWord word \<longleftrightarrow> List.member commonWords word"

text \<open>\<^verbatim>\<open>removeDuplicates\<close>: the loop with its \<^verbatim>\<open>seen\<close> map and its result slice.\<close>

fun removeDuplicatesLoop :: "(string \<Rightarrow> bool) \<Rightarrow> string list \<Rightarrow> string list \<Rightarrow> string list" where
  "removeDuplicatesLoop seen result [] = result"
| "removeDuplicatesLoop seen result (symbol # symbols) =
     (if \<not> seen symbol
      then removeDuplicatesLoop (seen(symbol := True)) (result @ [symbol]) symbols
      else removeDuplicatesLoop seen result symbols)"

definition removeDuplicates :: "string list \<Rightarrow> string list" where
  "removeDuplicates symbols = removeDuplicatesLoop (\<lambda>_. False) [] symbols"

text \<open>
  \<^verbatim>\<open>extractCoinSymbols\<close>: the symbols of the parenthesised pattern are kept when
  \<^verbatim>\<open>isValidCoinSymbol\<close> holds; those of the bare pattern must in addition not be common
  words. The duplicates of the concatenation are removed.
\<close>

definition submatchSymbol :: "string \<Rightarrow> string" where
  "submatchSymbol m = ToUpper (TrimSpace m)"

definition extractCoinSymbols :: "string \<Rightarrow> string list" where
  "extractCoinSymbols title =
     (let coins1 = filter isValidCoinSymbol (map submatchSymbol (findAllParenthesized title));
          coins2 = filter (\<lambda>symbol. isValidCoinSymbol symbol \<and> \<not> isCommonWord symbol)
                     (map submatchSymbol (findAllBare False title))
      in removeDuplicates (coins1 @ coins2))"

section \<open>The feed poller (services/upbit_monitor.go)\<close>

text \<open>
  \<^verbatim>\<open>strings.ToLower\<close> on the UTF-8 bytes of the title. Besides the ASCII capitals, two
  characters outside ASCII have an ASCII lower case: the Kelvin sign U+212A (bytes
  E2 84 AA) becomes \<open>k\<close> and the dotted capital I U+0130 (bytes C4 B0) becomes \<open>i\<close>.
  Every other cased character outside ASCII is mapped by Go to a character outside
  ASCII; it is left as it is here. The patterns of \<^verbatim>\<open>isMarketSupportAnnouncement\<close> consist
  of ASCII characters and Hangul syllables, which have no case, so this does not change
  which patterns the lowered title contains.
\<close>

definition toLowerChar :: "char \<Rightarrow> char" where
  "toLowerChar c = (if isUpperAZ c then char_of ((of_char c :: nat) + 32) else c)"

function ToLower :: "string \<Rightarrow> string" where
  "ToLower [] = []"
| "ToLower (c # cs) =
     (if c = CHR 0xE2 \<and> take 2 cs = [CHR 0x84, CHR 0xAA] then CHR ''k'' # ToLower (drop 2 cs)
      else if c = CHR 0xC4 \<and> take 1 cs = [CHR 0xB0] then CHR ''i'' # ToLower (drop 1 cs)
      else toLowerChar c # ToLower cs)"
  by pat_completeness auto
termination
  by (relation "measure length") auto

text \<open>
  \<^verbatim>\<open>isMarketSupportAnnouncement\<close>: the title in lower case is searched for the Korean
  and English patterns of the source; the Korean ones are given by their UTF-8 bytes.
\<close>

fun HasPrefix :: "string \<Rightarrow> string \<Rightarrow> bool" where
  "HasPrefix s [] = True"
| "HasPrefix [] (p # ps) = False"
| "HasPrefix (c # cs) (p # ps) = (c = p \<and> HasPrefix cs ps)"

fun Contains :: "string \<Rightarrow> string \<Rightarrow> bool" where
  "Contains [] substr = (substr = [])"
| "Contains (c # cs) substr = (HasPrefix (c # cs) substr \<or> Contains cs substr)"

definition koreanPatterns :: "string list" where
  "koreanPatterns =
    [[CHR 0xEB, CHR 0xA7, CHR 0x88, CHR 0xEC, CHR 0xBC, CHR 0x93, CHR 0x20, CHR 0xEC, CHR 0xA7, CHR 0x80, CHR 0xEC, CHR 0x9B, CHR 0x90],
     [CHR 0xEA, CHR 0xB1, CHR 0xB0, CHR 0xEB, CHR 0x9E, CHR 0x98, CHR 0x20, CHR 0xEC, CHR 0xA7, CHR 0x80, CHR 0xEC, CHR 0x9B, CHR 0x90],
     [CHR 0xEC, CHR 0x83, CHR 0x81, CHR 0xEC, CHR 0x9E, CHR 0xA5],
     [CHR 0xEC, CHR 0x8B, CHR 0xA0, CHR 0xEA, CHR 0xB7, CHR 0x9C, CHR 0x20, CHR 0xEC, CHR 0x83, CHR 0x81, CHR 0xEC, CHR 0x9E, CHR 0xA5],
     [CHR 0xEC, CHR 0x9B, CHR 0x90, CHR 0xED, CHR 0x99, CHR 0x94, CHR 0x20, CHR 0xEB, CHR 0xA7, CHR 0x88, CHR 0xEC, CHR 0xBC, CHR 0x93],
     [CHR 0x75, CHR 0x73, CHR 0x64, CHR 0x74, CHR 0x20, CHR 0xEB, CHR 0xA7, CHR 0x88, CHR 0xEC, CHR 0xBC, CHR 0x93]]"

definition englishPatterns :: "string list" where
  "englishPatterns =
    [''market support'', ''trading support'', ''listing'', ''new listing'',
     ''krw market'', ''usdt market'', ''support for'']"

definition isMarketSupportAnnouncement :: "string \<Rightarrow> bool" where
  "isMarketSupportAnnouncement title =
     (let lowerTitle = ToLower title;
          allPatterns = koreanPatterns @ englishPatterns
      in list_ex (\<lambda>pattern. Contains lowerTitle pattern) allPatterns)"

text \<open>
  The state of \<^verbatim>\<open>UpbitMonitor\<close>. The map \<^verbatim>\<open>processedCoins\<close> of type
  \<^verbatim>\<open>map[string]bool\<close> reads \<^verbatim>\<open>false\<close> at a missing key, so it is a function to
  \<open>bool\<close>. The two buffered channels are the lists of their queued elements, with
  capacities 100 and 10. Times are integers (nanoseconds since the zero \<^verbatim>\<open>time.Time\<close>),
  \<^verbatim>\<open>failureCount\<close> is a Go \<^verbatim>\<open>int\<close> of 64 bits.
\<close>

record UpbitMonitor =
  processedCoins :: "string \<Rightarrow> bool"
  newCoinChannel :: "string list"
  testCoinChannel :: "string list"
  lastETag :: string
  lastModified :: string
  backoffUntil :: int
  failureCount :: "64 word"

definition newCoinChannelCap :: nat where "newCoinChannelCap = 100"
definition testCoinChannelCap :: nat where "testCoinChannelCap = 10"

definition NewUpbitMonitor :: UpbitMonitor where
  "NewUpbitMonitor =
     \<lparr>processedCoins = (\<lambda>_. False), newCoinChannel = [], testCoinChannel = [],
      lastETag = [], lastModified = [], backoffUntil = 0, failureCount = 0\<rparr>"

definition isNewCoin :: "UpbitMonitor \<Rightarrow> string \<Rightarrow> bool" where
  "isNewCoin um symbol \<longleftrightarrow> \<not> processedCoins um symbol"

definition markCoinAsProcessed :: "string \<Rightarrow> UpbitMonitor \<Rightarrow> UpbitMonitor" where
  "markCoinAsProcessed symbol um = um\<lparr>processedCoins := (processedCoins um)(symbol := True)\<rparr>"

definition ClearProcessedCoins :: "UpbitMonitor \<Rightarrow> UpbitMonitor" where
  "ClearProcessedCoins um = um\<lparr>processedCoins := (\<lambda>_. False)\<rparr>"

text \<open>
  The body of the inner loop of \<^verbatim>\<open>parseAnnouncements\<close> for one coin: the coin is marked
  first, then sent without blocking (\<^verbatim>\<open>select\<close> with \<^verbatim>\<open>default\<close>): when the channel is
  full the coin is dropped. Each function returns the coins it has sent on
  \<^verbatim>\<open>newCoinChannel\<close>, in order, with the new state.
\<close>

definition processCoin :: "string \<Rightarrow> UpbitMonitor \<Rightarrow> string list \<times> UpbitMonitor" where
  "processCoin coin um =
     (if isNewCoin um coin then
        (let um1 = markCoinAsProcessed coin um
         in if length (newCoinChannel um1) < newCoinChannelCap
            then ([coin], um1\<lparr>newCoinChannel := newCoinChannel um1 @ [coin]\<rparr>)
            else ([], um1))
      else ([], um))"

fun processCoins :: "string list \<Rightarrow> UpbitMonitor \<Rightarrow> string list \<times> UpbitMonitor" where
  "processCoins [] um = ([], um)"
| "processCoins (coin # coins) um =
     (let (sent, um1) = processCoin coin um;
          (sent', um2) = processCoins coins um1
      in (sent @ sent', um2))"

text \<open>
  The callback of \<^verbatim>\<open>doc.Find(...).Each\<close> for the text of one selected element, and
  \<^verbatim>\<open>parseAnnouncements\<close> over the texts of the selected elements of the document.
\<close>

definition processElement :: "string \<Rightarrow> UpbitMonitor \<Rightarrow> string list \<times> UpbitMonitor" where
  "processElement elemText um =
     (let title = TrimSpace elemText
      in if title = [] then ([], um)
         else if isMarketSupportAnnouncement title
         then processCoins (extractCoinSymbols title) um
         else ([], um))"

fun parseAnnouncements :: "string list \<Rightarrow> UpbitMonitor \<Rightarrow> string list \<times> UpbitMonitor" where
  "parseAnnouncements [] um = ([], um)"
| "parseAnnouncements (elemText # texts) um =
     (let (sent, um1) = processElement elemText um;
          (sent', um2) = parseAnnouncements texts um1
      in (sent @ sent', um2))"

text \<open>\<^verbatim>\<open>InjectTestCoin\<close> and \<^verbatim>\<open>InjectTestCoinForUser\<close> (the latter sends
  \<^verbatim>\<open>fmt.Sprintf("%s:%d", coinSymbol, userID)\<close> on the test channel).\<close>

definition InjectTestCoin :: "string \<Rightarrow> UpbitMonitor \<Rightarrow> string list \<times> UpbitMonitor" where
  "InjectTestCoin coinSymbol um =
     (if processedCoins um coinSymbol then ([], um)
      else
        (let um1 = um\<lparr>processedCoins := (processedCoins um)(coinSymbol := True)\<rparr>
         in if length (newCoinChannel um1) < newCoinChannelCap
            then ([coinSymbol], um1\<lparr>newCoinChannel := newCoinChannel um1 @ [coinSymbol]\<rparr>)
            else ([], um1)))"

function digitsOf :: "nat \<Rightarrow> string" where
  "digitsOf n = (if n < 10 then [char_of (48 + n)] else digitsOf (n div 10) @ [char_of (48 + n mod 10)])"
  by pat_completeness auto
termination
  by (relation "measure id") auto

definition FormatInt :: "int \<Rightarrow> string" where
  "FormatInt i = (if i < 0 then CHR ''-'' # digitsOf (nat (- i)) else digitsOf (nat i))"

definition InjectTestCoinForUser :: "string \<Rightarrow> int \<Rightarrow> UpbitMonitor \<Rightarrow> UpbitMonitor" where
  "InjectTestCoinForUser coinSymbol userID um =
     (let testData = coinSymbol @ '':'' @ FormatInt userID
      in if length (testCoinChannel um) < testCoinChannelCap
         then um\<lparr>testCoinChannel := testCoinChannel um @ [testData]\<rparr>
         else um)"

text \<open>
  \<^verbatim>\<open>time.Duration\<close> is an \<^verbatim>\<open>int64\<close> of nanoseconds; its products wrap around.
  \<^verbatim>\<open>handleError\<close> and \<^verbatim>\<open>applyBackoff\<close> get the value of \<^verbatim>\<open>time.Now()\<close> as an argument.
  In \<^verbatim>\<open>applyBackoff\<close> the shift \<^verbatim>\<open>1 << uint(um.failureCount-1)\<close> is a shift of a 64-bit
  \<^verbatim>\<open>int\<close>: a count of 64 or more gives 0, a count of 63 the least integer; the
  comparison with 10 is signed.
\<close>

definition Second :: "64 word" where "Second = 1000000000"
definition Minute :: "64 word" where "Minute = 60 * Second"

definition handleError :: "int \<Rightarrow> UpbitMonitor \<Rightarrow> UpbitMonitor" where
  "handleError now um =
     (let um1 = um\<lparr>failureCount := failureCount um + 1\<rparr>
      in if sint (failureCount um1) \<ge> 3 then
           (let backoffDuration = failureCount um1 * 30 * Second
            in um1\<lparr>backoffUntil := now + sint backoffDuration\<rparr>)
         else um1)"

definition applyBackoff :: "int \<Rightarrow> UpbitMonitor \<Rightarrow> UpbitMonitor" where
  "applyBackoff now um =
     (let um1 = um\<lparr>failureCount := failureCount um + 1\<rparr>;
          shifted = (push_bit (unat (failureCount um1 - 1)) 1 :: 64 word);
          backoffMinutes = (if sint shifted > 10 then 10 else shifted);
          backoffDuration = backoffMinutes * Minute
      in um1\<lparr>backoffUntil := now + sint backoffDuration\<rparr>)"

text \<open>
  \<^verbatim>\<open>strconv.Atoi\<close>: an optional sign, then at least one decimal digit and nothing else;
  a value outside the 64-bit range is an error. \<open>None\<close> stands for a non-nil error.
\<close>

fun parseDigits :: "int \<Rightarrow> string \<Rightarrow> int option" where
  "parseDigits n [] = Some n"
| "parseDigits n (ch # s) =
     (if isDigit09 ch then parseDigits (n * 10 + ((of_char ch :: int) - 48)) s else None)"

definition Atoi :: "string \<Rightarrow> 64 word option" where
  "Atoi s =
     (case s of
        [] \<Rightarrow> None
      | c # cs \<Rightarrow>
          (let body = (if c = CHR ''-'' \<or> c = CHR ''+'' then cs else s)
           in if body = [] then None
              else case parseDigits 0 body of
                     None \<Rightarrow> None
                   | Some n \<Rightarrow>
                       (let v = (if c = CHR ''-'' then - n else n)
                        in if - (2 ^ 63) \<le> v \<and> v < 2 ^ 63 then Some (word_of_int v) else None)))"

text \<open>
  What \<^verbatim>\<open>checkAnnouncements\<close> reads of the HTTP response: the status code, three headers
  (\<^verbatim>\<open>Header.Get\<close> gives the empty string for a missing header) and the texts of the
  elements that the selector finds in the parsed body (\<open>None\<close> when parsing fails).
  The request can fail when it is built or when it is sent.
\<close>

record Response =
  StatusCode :: int
  hdrETag :: string
  hdrLastModified :: string
  hdrRetryAfter :: string
  bodyElements :: "string list option"

datatype FetchResult = RequestFailed | FetchFailed | Fetched Response

text \<open>The branch \<^verbatim>\<open>case 429\<close> of \<^verbatim>\<open>checkAnnouncements\<close>.\<close>

definition rateLimited :: "int \<Rightarrow> Response \<Rightarrow> UpbitMonitor \<Rightarrow> UpbitMonitor" where
  "rateLimited now resp um =
     (let retryAfter = hdrRetryAfter resp
      in if retryAfter \<noteq> [] then
           (case Atoi retryAfter of
              Some seconds \<Rightarrow>
                if sint seconds > 0 then
                  (let retryDuration = seconds * Second
                   in um\<lparr>backoffUntil := now + sint retryDuration\<rparr>)
                else applyBackoff now um
            | None \<Rightarrow> applyBackoff now um)
         else applyBackoff now um)"

text \<open>
  \<^verbatim>\<open>checkAnnouncements\<close>. The first time is the value of \<^verbatim>\<open>time.Now()\<close> at the backoff
  test, the second its value when the response is handled.
\<close>

definition checkAnnouncements ::
    "int \<Rightarrow> int \<Rightarrow> FetchResult \<Rightarrow> UpbitMonitor \<Rightarrow> string list \<times> UpbitMonitor" where
  "checkAnnouncements tcheck now fetch um =
     (if tcheck < backoffUntil um then ([], um)
      else case fetch of
        RequestFailed \<Rightarrow> ([], handleError now um)
      | FetchFailed \<Rightarrow> ([], handleError now um)
      | Fetched resp \<Rightarrow>
          if StatusCode resp = 200 then
            (let um1 = um\<lparr>failureCount := 0\<rparr>;
                 um2 = (if hdrETag resp \<noteq> [] then um1\<lparr>lastETag := hdrETag resp\<rparr> else um1);
                 um3 = (if hdrLastModified resp \<noteq> []
                        then um2\<lparr>lastModified := hdrLastModified resp\<rparr> else um2)
             in case bodyElements resp of
                  None \<Rightarrow> ([], handleError now um3)
                | Some texts \<Rightarrow> parseAnnouncements texts um3)
          else if StatusCode resp = 304 then ([], um\<lparr>failureCount := 0\<rparr>)
          else if StatusCode resp = 429 then ([], rateLimited now resp um)
          else if StatusCode resp = 403 then ([], applyBackoff now um)
          else ([], handleError now um))"

text \<open>Responses and states used in examples.\<close>

definition noRetryAfter :: Response where
  "noRetryAfter =
     \<lparr>StatusCode = 429, hdrETag = [], hdrLastModified = [], hdrRetryAfter = [], bodyElements = None\<rparr>"

definition retryAfterResponse :: "string \<Rightarrow> Response" where
  "retryAfterResponse v =
     \<lparr>StatusCode = 429, hdrETag = [], hdrLastModified = [], hdrRetryAfter = v, bodyElements = None\<rparr>"

text \<open>
  A session of the monitor: poll cycles, receptions by the trading engine on the two
  channels, test injections and the administrative clear, in any order. A reception
  from an empty channel would block; here it leaves the channel empty.
\<close>

datatype SessionOp =
    CheckAnnouncements int int FetchResult
  | ReceiveNewCoin
  | ReceiveTestCoin
  | InjectForUser string int
  | Inject string
  | Clear

fun sessionStep :: "SessionOp \<Rightarrow> UpbitMonitor \<Rightarrow> string list \<times> UpbitMonitor" where
  "sessionStep (CheckAnnouncements tcheck now fetch) um = checkAnnouncements tcheck now fetch um"
| "sessionStep ReceiveNewCoin um = ([], um\<lparr>newCoinChannel := tl (newCoinChannel um)\<rparr>)"
| "sessionStep ReceiveTestCoin um = ([], um\<lparr>testCoinChannel := tl (testCoinChannel um)\<rparr>)"
| "sessionStep (InjectForUser coinSymbol userID) um = ([], InjectTestCoinForUser coinSymbol userID um)"
| "sessionStep (Inject coinSymbol) um = InjectTestCoin coinSymbol um"
| "sessionStep Clear um = ([], ClearProcessedCoins um)"

fun runSession :: "SessionOp list \<Rightarrow> UpbitMonitor \<Rightarrow> string list \<times> UpbitMonitor" where
  "runSession [] um = ([], um)"
| "runSession (x # xs) um =
     (let (sent, um1) = sessionStep x um;
          (sent', um2) = runSession xs um1
      in (sent @ sent', um2))"

definition noClear :: "SessionOp list \<Rightarrow> bool" where
  "noClear xs \<longleftrightarrow> list_all (\<lambda>x. x \<noteq> Clear) xs"

text \<open>What one step preserves: the marks, and that only unmarked symbols are sent, each once.\<close>

definition dedupStep :: "UpbitMonitor \<Rightarrow> string list \<times> UpbitMonitor \<Rightarrow> bool" where
  "dedupStep um r \<longleftrightarrow>
     (\<forall>s. processedCoins um s \<longrightarrow> processedCoins (snd r) s)
     \<and> (\<forall>s\<in>set (fst r). \<not> processedCoins um s \<and> processedCoins (snd r) s)
     \<and> distinct (fst r)"

definition toshiResponse :: Response where
  "toshiResponse =
     \<lparr>StatusCode = 200, hdrETag = ''v1'', hdrLastModified = [], hdrRetryAfter = [],
      bodyElements = Some [''Market Support for Toshi(TOSHI) (KRW, USDT Market)'']\<rparr>"

definition fullMonitor :: UpbitMonitor where
  "fullMonitor = NewUpbitMonitor\<lparr>newCoinChannel := replicate 100 ''OLD''\<rparr>"

section \<open>The supervisors (main.go and services/trading_engine.go)\<close>

text \<open>
  A supervised function is given by the outcome of each of its runs: the \<open>k\<close>-th run
  returns, panics, or never returns (it blocks or loops for ever). The supervisors are
  loops that may run for ever, so they take fuel, the number of iterations that are
  observed; they return the events in order and whether the loop has been left.

  \<^verbatim>\<open>safeGo\<close> of \<^verbatim>\<open>main.go\<close>: one iteration runs the function inside a closure with a
  deferred \<^verbatim>\<open>recover\<close> and yields the flag \<^verbatim>\<open>shouldRestart\<close>; the loop is left by
  \<^verbatim>\<open>break\<close> when the flag is false.
\<close>

datatype Outcome = ReturnsNormally | Panics | NeverReturns

datatype SupervisorEvent =
    RunFn nat
  | LogPanicRecovered
  | LogRestarting
  | Sleep nat
  | LogCompletedNormally

fun safeGoIteration :: "nat \<Rightarrow> Outcome \<Rightarrow> SupervisorEvent list \<times> bool option" where
  "safeGoIteration k ReturnsNormally = ([RunFn k, LogCompletedNormally], Some False)"
| "safeGoIteration k Panics = ([RunFn k, LogPanicRecovered, LogRestarting, Sleep 10], Some True)"
| "safeGoIteration k NeverReturns = ([RunFn k], None)"

fun safeGo :: "nat \<Rightarrow> (nat \<Rightarrow> Outcome) \<Rightarrow> nat \<Rightarrow> SupervisorEvent list \<times> bool" where
  "safeGo 0 fn k = ([], False)"
| "safeGo (Suc fuel) fn k =
     (case safeGoIteration k (fn k) of
        (events, None) \<Rightarrow> (events, False)
      | (events, Some shouldRestart) \<Rightarrow>
          if \<not> shouldRestart then (events, True)
          else (let (events', exited) = safeGo fuel fn (Suc k) in (events @ events', exited)))"

text \<open>
  \<^verbatim>\<open>safeGoTE\<close> of the trading engine: the closure of one iteration ends with
  \<^verbatim>\<open>return\<close> on both paths, which leaves the closure only; the enclosing
  \<^verbatim>\<open>for\<close> has neither a condition nor a \<^verbatim>\<open>break\<close>. The flag of an iteration says
  whether the closure came to its end.
\<close>

fun safeGoTEIteration :: "nat \<Rightarrow> Outcome \<Rightarrow> SupervisorEvent list \<times> bool" where
  "safeGoTEIteration k ReturnsNormally = ([RunFn k, LogCompletedNormally], True)"
| "safeGoTEIteration k Panics = ([RunFn k, LogPanicRecovered, LogRestarting, Sleep 10], True)"
| "safeGoTEIteration k NeverReturns = ([RunFn k], False)"

fun safeGoTE :: "nat \<Rightarrow> (nat \<Rightarrow> Outcome) \<Rightarrow> nat \<Rightarrow> SupervisorEvent list \<times> bool" where
  "safeGoTE 0 fn k = ([], False)"
| "safeGoTE (Suc fuel) fn k =
     (case safeGoTEIteration k (fn k) of
        (events, False) \<Rightarrow> (events, False)
      | (events, True) \<Rightarrow>
          (let (events', exited) = safeGoTE fuel fn (Suc k) in (events @ events', exited)))"

section \<open>The reconciliation loop (services/trading_engine.go)\<close>

text \<open>
  The collaborators are outside the engine: the database (\<^verbatim>\<open>database.WithDB\<close> gives the
  error "database not available" without calling the operation, or the operation's own
  error), the venue client \<^verbatim>\<open>BitgetAPI\<close> and the Telegram bot. Their answers are
  inputs of the model; what the engine asks of them is the list of events it returns,
  in order. \<^verbatim>\<open>GetPosition\<close> answers with an error, with a nil position, or with a
  position whose field \<^verbatim>\<open>Size\<close> is a string.
\<close>

datatype DbResult = DbOk | DbNotAvailable | DbFailed

datatype GetPositionResult = GetPositionError | GetPositionNil | GetPositionLive string

datatype Message = MsgAutoClosed string | MsgCloseFailed | MsgTakeProfitExecuted Position

datatype EngineEvent =
    LogDatabaseNotConnected
  | LogUpdateInProgress
  | GuardAcquired
  | GuardReleased
  | QueryOpenPositions
  | LaunchUpdatePositionPNL Position
  | GetPositionCall string
  | SavePosition Position DbResult
  | GetSymbolPriceCall string
  | ClosePositionCall string float64
  | SendMessage int Message
  | SendPNLUpdate int Position


text \<open>
  The answers of the collaborators during one run of \<^verbatim>\<open>updatePositionPNL\<close>: whether the
  credentials decrypt, the answers of \<^verbatim>\<open>GetPosition\<close>, \<^verbatim>\<open>GetSymbolPrice\<close> (\<open>None\<close> for an
  error) and \<^verbatim>\<open>ClosePosition\<close>, the results of the three places that save the record,
  and the clock.
\<close>

record Collaborators =
  credentialsOk :: bool
  getPosition :: GetPositionResult
  getSymbolPrice :: "float64 option"
  closePositionOk :: bool
  saveVanished :: DbResult
  saveUpdated :: DbResult
  saveTakeProfit :: DbResult
  timeNow :: int

text \<open>\<^verbatim>\<open>executeTakeProfit\<close>\<close>

definition executeTakeProfit :: "Collaborators \<Rightarrow> Position \<Rightarrow> EngineEvent list" where
  "executeTakeProfit env position =
     (if \<not> closePositionOk env then
        [ClosePositionCall (Symbol position) (Quantity position),
         SendMessage (UserTelegramID position) MsgCloseFailed]
      else
        (let position1 = position\<lparr>Status := PositionClosed, ClosedAt := Some (timeNow env)\<rparr>
         in [ClosePositionCall (Symbol position) (Quantity position),
             SavePosition position1 (saveTakeProfit env),
             SendMessage (UserTelegramID position1) (MsgTakeProfitExecuted position1)]))"

text \<open>
  The test \<^verbatim>\<open>err != nil || bitgetPosition == nil || bitgetPosition.Size == "0"\<close> of
  \<^verbatim>\<open>updatePositionPNL\<close>, and the function itself. The position is a copy (it is passed
  by value), so the record changes only where it is saved.
\<close>

definition positionGone :: "GetPositionResult \<Rightarrow> bool" where
  "positionGone r \<longleftrightarrow>
     (case r of GetPositionError \<Rightarrow> True | GetPositionNil \<Rightarrow> True
      | GetPositionLive liveSize \<Rightarrow> liveSize = ''0'')"

definition updatePositionPNL :: "Collaborators \<Rightarrow> Position \<Rightarrow> EngineEvent list" where
  "updatePositionPNL env position =
     (if \<not> credentialsOk env then []
      else if positionGone (getPosition env) then
        (let position1 = position\<lparr>Status := PositionClosed, ClosedAt := Some (timeNow env)\<rparr>
         in if saveVanished env \<noteq> DbOk
            then [GetPositionCall (Symbol position), SavePosition position1 (saveVanished env)]
            else [GetPositionCall (Symbol position), SavePosition position1 DbOk,
                  SendMessage (UserTelegramID position1) (MsgAutoClosed (Symbol position1))])
      else
        (case getSymbolPrice env of
           None \<Rightarrow> [GetPositionCall (Symbol position), GetSymbolPriceCall (Symbol position)]
         | Some currentPrice \<Rightarrow>
             (let position1 = CalculatePNL (position\<lparr>CurrentPrice := currentPrice\<rparr>)
              in if saveUpdated env \<noteq> DbOk
                 then [GetPositionCall (Symbol position), GetSymbolPriceCall (Symbol position),
                       SavePosition position1 (saveUpdated env)]
                 else if ShouldTakeProfit position1
                 then [GetPositionCall (Symbol position), GetSymbolPriceCall (Symbol position),
                       SavePosition position1 DbOk]
                      @ executeTakeProfit env position1
                 else [GetPositionCall (Symbol position), GetSymbolPriceCall (Symbol position),
                       SavePosition position1 DbOk,
                       SendPNLUpdate (UserTelegramID position1) position1])))"

text \<open>The persisted record becomes Closed when a record with that status is saved with success.\<close>

fun savesClosed :: "EngineEvent \<Rightarrow> bool" where
  "savesClosed (SavePosition p r) = (r = DbOk \<and> Status p = PositionClosed)"
| "savesClosed _ = False"

definition transitionedToClosed :: "EngineEvent list \<Rightarrow> bool" where
  "transitionedToClosed events \<longleftrightarrow> list_ex savesClosed events"


definition vanishedRecord :: "Collaborators \<Rightarrow> Position \<Rightarrow> Position" where
  "vanishedRecord env position = position\<lparr>Status := PositionClosed, ClosedAt := Some (timeNow env)\<rparr>"

definition transientError :: Collaborators where
  "transientError =
     \<lparr>credentialsOk = True, getPosition = GetPositionError, getSymbolPrice = Some (Fin64 150),
      closePositionOk = True, saveVanished = DbOk, saveUpdated = DbOk, saveTakeProfit = DbOk,
      timeNow = 7\<rparr>"

section \<open>Worker pool and per-user locks (services/trading_engine.go)\<close>

text \<open>
  The goroutines of the engine, interleaved at their synchronisation points. A worker is
  a goroutine started by \<^verbatim>\<open>safeGoTE\<close> in \<^verbatim>\<open>handleNewCoin\<close> or \<^verbatim>\<open>updateAllPositions\<close> for
  one user; its closure
  \<^item> sends on \<^verbatim>\<open>te.apiWorkerPool\<close>, a channel with a buffer of 10, which blocks while
    the buffer is full (\<open>AtStart\<close> to \<open>HoldsSlot\<close>);
  \<^item> locks the mutex of the user, which blocks while it is locked (to \<open>InCall\<close>);
  \<^item> runs \<^verbatim>\<open>processUserTrade\<close> or \<^verbatim>\<open>updatePositionPNL\<close>, the external call sequence,
    until it returns or panics (to \<open>CallEnded\<close>);
  \<^item> runs its deferred calls, last deferred first: it unlocks the mutex (to
    \<open>Unlocked\<close>) and receives from the channel (back to \<open>AtStart\<close>, where the loop
    of \<^verbatim>\<open>safeGoTE\<close> runs the closure again).
  The dispatcher goroutine runs \<^verbatim>\<open>handleTestCoin\<close> itself, which calls
  \<^verbatim>\<open>processUserTrade\<close> for the user of the test without touching the channel or the
  mutexes; \<open>testTrade\<close> is the user of the call it is in, if any.
\<close>

datatype Pc = AtStart | HoldsSlot | InCall | CallEnded | Unlocked

record Engine =
  apiWorkerPool :: nat
  userMutexes :: "int \<Rightarrow> bool"
  workers :: "(int \<times> Pc) list"
  testTrade :: "int option"

text \<open>\<^verbatim>\<open>NewTradingEngine\<close>: an empty channel of capacity 10 and no mutex yet (an absent
  mutex is created unlocked by \<^verbatim>\<open>getUserMutex\<close>).\<close>

definition poolCapacity :: nat where "poolCapacity = 10"

definition NewTradingEngine :: Engine where
  "NewTradingEngine =
     \<lparr>apiWorkerPool = 0, userMutexes = (\<lambda>_. False), workers = [], testTrade = None\<rparr>"

text \<open>
  A schedule is a list of actions: a worker is launched for a user, the worker at an
  index takes its next step, the dispatcher enters or leaves the call of a test. A step
  that would block is \<open>None\<close>.
\<close>

datatype Action = Launch int | Advance nat | TestCoinBegin int | TestCoinEnd

definition advance :: "nat \<Rightarrow> Engine \<Rightarrow> Engine option" where
  "advance i e =
     (if i \<ge> length (workers e) then None
      else case workers e ! i of
        (u, AtStart) \<Rightarrow>
          if apiWorkerPool e < poolCapacity
          then Some (e\<lparr>apiWorkerPool := apiWorkerPool e + 1,
                        workers := (workers e)[i := (u, HoldsSlot)]\<rparr>)
          else None
      | (u, HoldsSlot) \<Rightarrow>
          if userMutexes e u then None
          else Some (e\<lparr>userMutexes := (userMutexes e)(u := True),
                        workers := (workers e)[i := (u, InCall)]\<rparr>)
      | (u, InCall) \<Rightarrow> Some (e\<lparr>workers := (workers e)[i := (u, CallEnded)]\<rparr>)
      | (u, CallEnded) \<Rightarrow>
          Some (e\<lparr>userMutexes := (userMutexes e)(u := False),
                   workers := (workers e)[i := (u, Unlocked)]\<rparr>)
      | (u, Unlocked) \<Rightarrow>
          Some (e\<lparr>apiWorkerPool := apiWorkerPool e - 1,
                   workers := (workers e)[i := (u, AtStart)]\<rparr>))"

fun engineStep :: "Action \<Rightarrow> Engine \<Rightarrow> Engine option" where
  "engineStep (Launch u) e = Some (e\<lparr>workers := workers e @ [(u, AtStart)]\<rparr>)"
| "engineStep (Advance i) e = advance i e"
| "engineStep (TestCoinBegin u) e =
     (if testTrade e = None then Some (e\<lparr>testTrade := Some u\<rparr>) else None)"
| "engineStep TestCoinEnd e =
     (if testTrade e \<noteq> None then Some (e\<lparr>testTrade := None\<rparr>) else None)"

fun runEngine :: "Action list \<Rightarrow> Engine \<Rightarrow> Engine option" where
  "runEngine [] e = Some e"
| "runEngine (a # as) e = (case engineStep a e of None \<Rightarrow> None | Some e' \<Rightarrow> runEngine as e')"

text \<open>External call sequences in flight: of workers, of workers for one user, and with the test.\<close>

fun inCall :: "int \<times> Pc \<Rightarrow> bool" where
  "inCall (u, pc) = (pc = InCall)"

fun inCallFor :: "int \<Rightarrow> int \<times> Pc \<Rightarrow> bool" where
  "inCallFor u (v, pc) = (v = u \<and> pc = InCall)"

fun holdsSlot :: "int \<times> Pc \<Rightarrow> bool" where
  "holdsSlot (u, pc) = (pc \<noteq> AtStart)"

fun holdsLock :: "int \<Rightarrow> int \<times> Pc \<Rightarrow> bool" where
  "holdsLock u (v, pc) = (v = u \<and> (pc = InCall \<or> pc = CallEnded))"

definition pooledCalls :: "Engine \<Rightarrow> nat" where
  "pooledCalls e = length (filter inCall (workers e))"

definition pooledCallsFor :: "int \<Rightarrow> Engine \<Rightarrow> nat" where
  "pooledCallsFor u e = length (filter (inCallFor u) (workers e))"

definition callsInFlight :: "Engine \<Rightarrow> nat" where
  "callsInFlight e = pooledCalls e + (case testTrade e of None \<Rightarrow> 0 | Some u \<Rightarrow> 1)"

definition callsInFlightFor :: "int \<Rightarrow> Engine \<Rightarrow> nat" where
  "callsInFlightFor u e = pooledCallsFor u e + (if testTrade e = Some u then 1 else 0)"

text \<open>
  The tokens in the channel are the workers between their send and their receive, and
  a mutex is locked exactly when one worker of that user is between lock and unlock.
\<close>

definition poolInvariant :: "Engine \<Rightarrow> bool" where
  "poolInvariant e \<longleftrightarrow>
     apiWorkerPool e = length (filter holdsSlot (workers e))
     \<and> apiWorkerPool e \<le> poolCapacity
     \<and> (\<forall>u. length (filter (holdsLock u) (workers e)) = (if userMutexes e u then 1 else 0))"

text \<open>
  Ten workers for the users 1 to 10 take a slot and the lock of their user and enter
  their call; then a test for user 1 is dispatched.
\<close>

definition elevenCalls :: "Action list" where
  "elevenCalls =
     map Launch [1, 2, 3, 4, 5, 6, 7, 8, 9, 10]
     @ map Advance [0, 1, 2, 3, 4, 5, 6, 7, 8, 9]
     @ map Advance [0, 1, 2, 3, 4, 5, 6, 7, 8, 9]
     @ [TestCoinBegin 1]"

chapter \<open>Verification\<close>

section \<open>Rounding\<close>

lemma roundEven_of_int: "roundEven (of_int n) = n"
  by (simp add: roundEven_def)

lemma roundEven_small:
  assumes "\<bar>m\<bar> < 1 / 2"
  shows "roundEven m = 0"
proof (cases "0 \<le> m")
  case True
  with assms have "\<lfloor>m\<rfloor> = 0" by (intro floor_unique) auto
  with assms True show ?thesis by (simp add: roundEven_def)
next
  case False
  with assms have f: "\<lfloor>m\<rfloor> = - 1" by (intro floor_unique) auto
  with assms False show ?thesis by (simp add: roundEven_def)
qed

lemma binade_normal:
  assumes "2 powi e \<le> \<bar>x\<bar>" "\<bar>x\<bar> < 2 powi (e + 1)" "- 1022 \<le> e"
  shows "binade x = e"
proof -
  have "(2::real) powi (- 1022) \<le> 2 powi e"
    using assms(3) by (intro power_int_increasing) auto
  with assms(1) have n: "\<not> \<bar>x\<bar> < 2 powi (- 1022)" by linarith
  have pos: "0 < \<bar>x\<bar>"
    using assms(1) zero_less_power_int [of "2::real" e] by linarith
  have p0: "(2::real) powr real_of_int e = 2 powi e" by (rule powr_real_of_int') auto
  have p1: "(2::real) powr real_of_int (e + 1) = 2 powi (e + 1)" by (rule powr_real_of_int') auto
  have "2 powr real_of_int e \<le> \<bar>x\<bar> \<and> \<bar>x\<bar> < 2 powr real_of_int (e + 1)"
    using assms(1,2) by (simp only: p0 p1)
  then have "\<lfloor>log 2 \<bar>x\<bar>\<rfloor> = e"
    using floor_log_eq_powr_iff [of "\<bar>x\<bar>" 2 e] pos by simp
  with n show ?thesis by (simp only: binade_def if_False)
qed

lemma round64_representable:
  assumes "2 powi e \<le> \<bar>x\<bar>" "\<bar>x\<bar> < 2 powi (e + 1)" "- 1022 \<le> e" "e \<le> 1023"
    and "x = of_int n * 2 powi (e - 52)"
  shows "round64 x = Fin64 x"
proof -
  have b: "binade x = e" using assms(1-3) by (rule binade_normal)
  have u: "(0::real) < 2 powi (e - 52)" by (simp add: zero_less_power_int)
  then have q: "x / 2 powi (e - 52) = of_int n" using assms(5) by simp
  have "0 < \<bar>x\<bar>" using assms(1) zero_less_power_int [of "2::real" e] by linarith
  then have "x \<noteq> 0" by auto
  with assms(5) have n0: "n \<noteq> 0" by auto
  have "(2::real) powi (e + 1) \<le> 2 powi 1024"
    using assms(4) by (intro power_int_increasing) auto
  with assms(2) have lt: "\<not> 2 powi 1024 \<le> \<bar>x\<bar>" by linarith
  have r: "of_int n * 2 powi (e - 52) = x" using assms(5) by simp
  show ?thesis
    unfolding round64_def b Let_def q roundEven_of_int r
    using n0 lt by (simp only: if_False)
qed

lemma round64_nat:
  fixes k :: nat and e :: nat
  assumes "2 ^ e \<le> k" "k < 2 ^ (e + 1)" "e \<le> 52"
  shows "round64 (real k) = Fin64 (real k)"
proof (rule round64_representable [where e = "int e" and n = "int (k * 2 ^ (52 - e))"])
  have "(2::real) ^ e \<le> real k" using assms(1) by (metis of_nat_le_iff of_nat_numeral of_nat_power)
  then show "2 powi int e \<le> \<bar>real k\<bar>" by simp
  have "real k < 2 ^ (e + 1)" using assms(2) by (metis of_nat_less_iff of_nat_numeral of_nat_power)
  then show "\<bar>real k\<bar> < 2 powi (int e + 1)"
    by (simp add: power_int_def nat_add_distrib)
  show "- 1022 \<le> int e" by simp
  show "int e \<le> 1023" using assms(3) by simp
  have "(2::real) powi (int e - 52) = 1 / 2 ^ (52 - e)"
    using assms(3) by (simp add: power_int_def nat_diff_distrib' field_simps)
  then show "real k = real_of_int (int (k * 2 ^ (52 - e))) * 2 powi (int e - 52)"
    by simp
qed

lemma round64_tiny:
  assumes "\<bar>x\<bar> < 2 powi (- 1075)"
  shows "round64 x = Zero64 (x < 0)"
proof -
  have "(2::real) powi (- 1075) \<le> 2 powi (- 1022)" by (intro power_int_increasing) auto
  with assms have b: "binade x = - 1022" by (simp add: binade_def)
  have "\<bar>x / 2 powi (- 1074)\<bar> = \<bar>x\<bar> * 2 ^ 1074" by (simp add: power_int_def abs_mult field_simps)
  also have "\<dots> < 2 powi (- 1075) * 2 ^ 1074" using assms by (intro mult_strict_right_mono) auto
  also have "\<dots> = 1 / 2" by (simp add: power_int_def field_simps)
  finally have "roundEven (x / 2 powi (- 1074)) = 0" by (rule roundEven_small)
  then show ?thesis by (simp add: round64_def b Let_def)
qed

lemma roundEven_ge:
  assumes "of_int k \<le> m"
  shows "k \<le> roundEven m"
proof -
  from assms have "k \<le> \<lfloor>m\<rfloor>" by (simp add: le_floor_iff)
  then show ?thesis by (simp add: roundEven_def Let_def)
qed

lemma roundEven_le:
  assumes "m \<le> of_int k"
  shows "roundEven m \<le> k"
proof (cases "m = of_int \<lfloor>m\<rfloor>")
  case True
  then have "roundEven m = \<lfloor>m\<rfloor>" by (simp add: roundEven_def Let_def)
  moreover from assms have "\<lfloor>m\<rfloor> \<le> k" by (simp add: floor_le_iff)
  ultimately show ?thesis by simp
next
  case False
  then have "of_int \<lfloor>m\<rfloor> < m" using of_int_floor_le [of m] by linarith
  with assms have "of_int \<lfloor>m\<rfloor> < (of_int k :: real)" by linarith
  then have "\<lfloor>m\<rfloor> < k" by simp
  then have "\<lfloor>m\<rfloor> + 1 \<le> k" by simp
  then show ?thesis by (simp add: roundEven_def Let_def)
qed

lemma round64_unfold:
  assumes "binade x = b" "ulp = 2 powi (b - 52)" "n = roundEven (x / ulp)"
  shows "round64 x =
           (if n = 0 then Zero64 (x < 0)
            else if 2 powi 1024 \<le> \<bar>real_of_int n * ulp\<bar> then Inf64 (x < 0)
            else Fin64 (real_of_int n * ulp))"
  using assms by (simp add: round64_def Let_def)

lemma powi2_less_imp_less:
  assumes "(2::real) powi m < 2 powi n"
  shows "m < n"
proof (rule ccontr)
  assume "\<not> m < n"
  then have "n \<le> m" by simp
  then have "(2::real) powi n \<le> 2 powi m" by (intro power_int_increasing) auto
  with assms show False by linarith
qed

lemma round64_lower:
  assumes "2 powi k \<le> x" "- 1022 \<le> k"
  shows "round64 x = Inf64 False \<or> (\<exists>r. round64 x = Fin64 r \<and> 2 powi k \<le> r)"
proof -
  have xpos: "0 < x" using assms(1) zero_less_power_int [of "2::real" k] by linarith
  define b where "b = \<lfloor>log 2 x\<rfloor>"
  have p0: "(2::real) powr real_of_int b = 2 powi b" by (rule powr_real_of_int') auto
  have p1: "(2::real) powr real_of_int (b + 1) = 2 powi (b + 1)" by (rule powr_real_of_int') auto
  have "2 powr real_of_int b \<le> x \<and> x < 2 powr real_of_int (b + 1)"
    using floor_log_eq_powr_iff [of x 2 b] xpos by (simp add: b_def)
  then have lo: "2 powi b \<le> x" and hi: "x < 2 powi (b + 1)" by (simp_all only: p0 p1)
  have "2 powi k < (2::real) powi (b + 1)" using assms(1) hi by linarith
  then have "k < b + 1" by (rule powi2_less_imp_less)
  then have kb: "k \<le> b" by simp
  then have b22: "- 1022 \<le> b" using assms(2) by simp
  have bin: "binade x = b"
    using lo hi b22 xpos by (intro binade_normal) auto
  define ulp :: real where "ulp = 2 powi (b - 52)"
  have upos: "0 < ulp" by (simp add: ulp_def zero_less_power_int)
  have split: "(2::real) powi b = 2 ^ 52 * ulp"
    using power_int_add [of "2::real" 52 "b - 52"] by (simp add: ulp_def)
  define n where "n = roundEven (x / ulp)"
  have "(2::real) ^ 52 \<le> x / ulp"
    using lo upos by (simp add: split pos_le_divide_eq)
  then have "real_of_int (2 ^ 52) \<le> x / ulp" by simp
  then have n52: "2 ^ 52 \<le> n" unfolding n_def by (rule roundEven_ge)
  then have n0: "n \<noteq> 0" by auto
  have "(2::real) ^ 52 \<le> of_int n" using n52 by (metis of_int_le_iff of_int_numeral of_int_power)
  then have "2 ^ 52 * ulp \<le> of_int n * ulp" using upos by (intro mult_right_mono) auto
  then have r: "2 powi k \<le> of_int n * ulp"
    using power_int_increasing [OF kb, of "2::real"] by (simp add: split)
  have neg: "\<not> x < 0" using xpos by simp
  have "round64 x = (if 2 powi 1024 \<le> \<bar>real_of_int n * ulp\<bar> then Inf64 False
                     else Fin64 (real_of_int n * ulp))"
    using round64_unfold [OF bin ulp_def n_def] n0 neg by (simp only: if_False)
  with r show ?thesis by auto
qed

lemma round64_positive:
  assumes "2 powi (- 1074) \<le> x"
  shows "round64 x = Inf64 False \<or> (\<exists>r. round64 x = Fin64 r \<and> 0 < r)"
proof (cases "x < 2 powi (- 1022)")
  case False
  then have "2 powi (- 1022) \<le> x" by simp
  from round64_lower [OF this] zero_less_power_int [of "2::real" "- 1022"]
  show ?thesis by (metis less_le_trans order_refl zero_less_numeral)
next
  case True
  have xpos: "0 < x" using assms zero_less_power_int [of "2::real" "- 1074"] by linarith
  with True have bin: "binade x = - 1022" by (simp add: binade_def)
  define ulp :: real where "ulp = 2 powi (- 1022 - 52)"
  have upos: "0 < ulp" by (simp only: ulp_def) (rule zero_less_power_int, simp)
  have ulp74: "ulp = 2 powi (- 1074)" by (simp add: ulp_def)
  define n where "n = roundEven (x / ulp)"
  have "1 * ulp \<le> x" using assms by (simp only: ulp74 mult_1)
  then have "1 \<le> x / ulp" using upos by (simp only: pos_le_divide_eq)
  then have "real_of_int 1 \<le> x / ulp" by simp
  then have n1: "1 \<le> n" unfolding n_def by (rule roundEven_ge)
  then have "0 < real_of_int n" by simp
  then have pos: "0 < real_of_int n * ulp" using upos by (rule mult_pos_pos)
  have n0: "n \<noteq> 0" using n1 by simp
  have neg: "\<not> x < 0" using xpos by simp
  have "round64 x = (if 2 powi 1024 \<le> \<bar>real_of_int n * ulp\<bar> then Inf64 False
                     else Fin64 (real_of_int n * ulp))"
    using round64_unfold [OF bin ulp_def n_def] n0 neg by (simp only: if_False)
  with pos show ?thesis by auto
qed

lemma ofInt_bounds:
  assumes "0 < i" "i < 2 ^ 63"
  shows "\<exists>r. ofInt i = Fin64 r \<and> 0 < r \<and> r \<le> 2 powi 63"
proof -
  define x where "x = real_of_int i"
  have x1: "1 \<le> x" using assms(1) by (simp add: x_def)
  have x63: "x < 2 ^ 63" using assms(2) unfolding x_def by (metis of_int_less_iff of_int_numeral of_int_power)
  define b where "b = \<lfloor>log 2 x\<rfloor>"
  have xpos: "0 < x" using x1 by simp
  have p0: "(2::real) powr real_of_int b = 2 powi b" by (rule powr_real_of_int') auto
  have p1: "(2::real) powr real_of_int (b + 1) = 2 powi (b + 1)" by (rule powr_real_of_int') auto
  have "2 powr real_of_int b \<le> x \<and> x < 2 powr real_of_int (b + 1)"
    using floor_log_eq_powr_iff [of x 2 b] xpos by (simp add: b_def)
  then have lo: "2 powi b \<le> x" and hi: "x < 2 powi (b + 1)" by (simp_all only: p0 p1)
  have "(2::real) powi 0 < 2 powi (b + 1)" using x1 hi by simp
  then have "0 < b + 1" by (rule powi2_less_imp_less)
  then have b0: "0 \<le> b" by simp
  have "(2::real) powi b < 2 powi 63" using lo x63 by simp
  then have "b < 63" by (rule powi2_less_imp_less)
  then have b62: "b + 1 \<le> 63" by simp
  have bin: "binade x = b"
    using lo hi b0 xpos by (intro binade_normal) auto
  define ulp :: real where "ulp = 2 powi (b - 52)"
  have upos: "0 < ulp" by (simp add: ulp_def zero_less_power_int)
  have split: "(2::real) powi b = 2 ^ 52 * ulp"
    using power_int_add [of "2::real" 52 "b - 52"] by (simp add: ulp_def)
  have split1: "(2::real) powi (b + 1) = 2 ^ 53 * ulp"
    using power_int_add [of "2::real" 53 "b - 52"] by (simp add: ulp_def add.commute)
  define n where "n = roundEven (x / ulp)"
  have "(2::real) ^ 52 \<le> x / ulp" using lo upos by (simp add: split pos_le_divide_eq)
  then have "real_of_int (2 ^ 52) \<le> x / ulp" by simp
  then have n52: "2 ^ 52 \<le> n" unfolding n_def by (rule roundEven_ge)
  have "x / ulp \<le> 2 ^ 53" using hi upos by (simp add: split1 pos_divide_le_eq)
  then have "x / ulp \<le> real_of_int (2 ^ 53)" by simp
  then have n53: "n \<le> 2 ^ 53" unfolding n_def by (rule roundEven_le)
  have n0: "n \<noteq> 0" using n52 by auto
  have npos: "0 < real_of_int n" using n52 by simp
  then have rpos: "0 < of_int n * ulp" using upos by simp
  have "real_of_int n \<le> 2 ^ 53" using n53 by (metis of_int_le_iff of_int_numeral of_int_power)
  then have "of_int n * ulp \<le> 2 ^ 53 * ulp" using upos by (intro mult_right_mono) auto
  then have "of_int n * ulp \<le> 2 powi (b + 1)" by (simp add: split1)
  also have "\<dots> \<le> 2 powi 63" using b62 by (intro power_int_increasing) auto
  finally have r63: "of_int n * ulp \<le> 2 powi 63" .
  have "(2::real) powi 63 < 2 powi 1024" by (intro power_int_strict_increasing) auto
  with r63 rpos have small: "\<not> 2 powi 1024 \<le> \<bar>of_int n * ulp\<bar>" by simp
  have "round64 x = Fin64 (real_of_int n * ulp)"
    using round64_unfold [OF bin ulp_def n_def] n0 small by (simp only: if_False)
  moreover have "ofInt i = round64 x" using assms(1) by (simp add: ofInt_def x_def)
  ultimately show ?thesis using rpos r63 by auto
qed

section \<open>Profit and loss\<close>

lemma margin_positive_without_underflow:
  assumes "EntryPrice p = Fin64 e" "Quantity p = Fin64 q" "0 < e" "0 < q"
    and "2 powi (- 1011) \<le> e * q" and "0 < Leverage p" "Leverage p < 2 ^ 63"
  shows "fgt (computedMargin p) (Zero64 False)"
proof -
  obtain l where l: "ofInt (Leverage p) = Fin64 l" "0 < l" "l \<le> 2 powi 63"
    using ofInt_bounds [OF assms(6,7)] by auto
  have ne: "e * q \<noteq> 0" using assms(3,4) by simp
  have prod: "fmul (EntryPrice p) (Quantity p) = round64 (e * q)"
    using ne by (simp add: fmul_def assms(1,2))
  have pos: "fgt f (Zero64 False)" if "f = Inf64 False \<or> (\<exists>r. f = Fin64 r \<and> 0 < r)" for f
    using that by (auto simp: fgt_def flt_def)
  from round64_lower [OF assms(5)]
  consider "round64 (e * q) = Inf64 False"
    | r where "round64 (e * q) = Fin64 r" "2 powi (- 1011) \<le> r"
    by auto
  then show ?thesis
  proof cases
    case 1
    then have "computedMargin p = Inf64 False"
      using l by (simp add: computedMargin_def prod fdiv_def)
    then show ?thesis by (simp add: pos)
  next
    case 2
    have rpos: "0 < r" using 2(2) zero_less_power_int [of "2::real" "- 1011"] by linarith
    have m: "computedMargin p = round64 (r / l)"
      using l rpos 2(1) by (simp add: computedMargin_def prod fdiv_def)
    have "(2::real) powi (- 1074) * l \<le> 2 powi (- 1074) * 2 powi 63"
      using l(3) by (intro mult_left_mono) (auto simp: zero_less_power_int less_imp_le)
    also have "\<dots> = 2 powi (- 1011)"
      using power_int_add [of "2::real" "- 1074" 63] by simp
    finally have "2 powi (- 1074) * l \<le> r" using 2(2) by linarith
    then have "2 powi (- 1074) \<le> r / l" using l(2) by (simp add: pos_le_divide_eq)
    from round64_positive [OF this] show ?thesis by (simp add: m pos)
  qed
qed

lemma fgt_not_fle: "fgt x (Zero64 False) \<Longrightarrow> \<not> fle x (Zero64 False)"
  by (cases x) (auto simp: fgt_def flt_def fle_def)

text \<open>
  C9 (as amended): for a position whose entry price, current price, quantity and
  leverage are all positive, the recomputation sets the unrealised profit to
  \<open>(CurrentPrice - EntryPrice) * Quantity\<close>; when the margin
  \<open>(EntryPrice * Quantity) / Leverage\<close> that it computes is positive, it sets the return
  on equity to \<open>CurrentPNL / margin * 100\<close>, and otherwise it leaves the return on
  equity as it was. Every operation is the \<^verbatim>\<open>float64\<close> one. The computed margin is
  positive whenever the prices are finite, the exact product of entry price and quantity
  is at least \<open>2 ^ (- 1011)\<close> and the leverage is a 64-bit integer.
\<close>

theorem CalculatePNL_formulas:
  assumes "fgt (EntryPrice p) (Zero64 False)" "fgt (CurrentPrice p) (Zero64 False)"
    "fgt (Quantity p) (Zero64 False)" "0 < Leverage p"
  shows "CurrentPNL (CalculatePNL p) = fmul (fsub (CurrentPrice p) (EntryPrice p)) (Quantity p)
       \<and> (fgt (computedMargin p) (Zero64 False) \<longrightarrow>
            ROE (CalculatePNL p)
              = fmul (fdiv (CurrentPNL (CalculatePNL p)) (computedMargin p)) (Fin64 100))
       \<and> (\<not> fgt (computedMargin p) (Zero64 False) \<longrightarrow> ROE (CalculatePNL p) = ROE p)
       \<and> (\<forall>e q. EntryPrice p = Fin64 e \<and> Quantity p = Fin64 q \<and> 2 powi (- 1011) \<le> e * q
                  \<and> Leverage p < 2 ^ 63 \<longrightarrow> fgt (computedMargin p) (Zero64 False))"
proof -
  have g: "\<not> (fle (EntryPrice p) (Zero64 False) \<or> fle (CurrentPrice p) (Zero64 False)
                \<or> fle (Quantity p) (Zero64 False))"
    using assms(1-3) fgt_not_fle by blast
  have a: "CurrentPNL (CalculatePNL p) = fmul (fsub (CurrentPrice p) (EntryPrice p)) (Quantity p)"
    using g by (simp add: CalculatePNL_def Let_def)
  have b: "ROE (CalculatePNL p) = fmul (fdiv (CurrentPNL (CalculatePNL p)) (computedMargin p)) (Fin64 100)"
    if "fgt (computedMargin p) (Zero64 False)"
    using g that by (simp add: CalculatePNL_def Let_def computedMargin_def)
  have c: "ROE (CalculatePNL p) = ROE p" if "\<not> fgt (computedMargin p) (Zero64 False)"
    using g that by (simp add: CalculatePNL_def Let_def computedMargin_def)
  have d: "fgt (computedMargin p) (Zero64 False)"
    if "EntryPrice p = Fin64 e" "Quantity p = Fin64 q" "2 powi (- 1011) \<le> e * q"
       "Leverage p < 2 ^ 63" for e q
  proof -
    have "0 < e" using assms(1) that(1) by (simp add: fgt_def flt_def)
    moreover have "0 < q" using assms(3) that(2) by (simp add: fgt_def flt_def)
    ultimately show ?thesis
      using that assms(4) by (intro margin_positive_without_underflow) auto
  qed
  show ?thesis using a b c d by blast
qed

lemma round64_small_numbers:
  "round64 5 = Fin64 5" "round64 10 = Fin64 10" "round64 20 = Fin64 20" "round64 50 = Fin64 50"
  "round64 100 = Fin64 100" "round64 200 = Fin64 200" "round64 500 = Fin64 500"
  using round64_nat [of 2 5] round64_nat [of 3 10] round64_nat [of 4 20] round64_nat [of 5 50]
    round64_nat [of 6 100] round64_nat [of 7 200] round64_nat [of 8 500]
  by simp_all

lemma examplePosition_margin: "computedMargin examplePosition = Fin64 20"
  by (simp add: computedMargin_def examplePosition_def fmul_def fdiv_def ofInt_def
      round64_small_numbers)

theorem CalculatePNL_formulas_witness:
  "CurrentPNL (CalculatePNL examplePosition) = Fin64 100
   \<and> ROE (CalculatePNL examplePosition) = Fin64 500"
proof -
  have pos: "fgt (EntryPrice examplePosition) (Zero64 False)"
    "fgt (CurrentPrice examplePosition) (Zero64 False)"
    "fgt (Quantity examplePosition) (Zero64 False)" "0 < Leverage examplePosition"
    by (simp_all add: examplePosition_def fgt_def flt_def)
  have pnl: "fmul (fsub (CurrentPrice examplePosition) (EntryPrice examplePosition))
               (Quantity examplePosition) = Fin64 100"
    by (simp add: examplePosition_def fsub_def fmul_def round64_small_numbers)
  have roe: "fmul (fdiv (Fin64 100) (Fin64 20)) (Fin64 100) = Fin64 500"
    by (simp add: fdiv_def fmul_def round64_small_numbers)
  have m: "fgt (computedMargin examplePosition) (Zero64 False)"
    by (simp add: examplePosition_margin fgt_def flt_def)
  show ?thesis
    using CalculatePNL_formulas [OF pos] m
    by (simp add: pnl roe examplePosition_margin)
qed

lemma tiny_pos: "0 < tiny"
  unfolding tiny_def by (rule zero_less_power_int) simp

lemma tiny_product: "round64 (tiny * tiny) = Zero64 False"
proof -
  have "(2::real) powi (- 600) * 2 powi (- 600) = 2 powi (- 600 + - 600)"
    by (rule power_int_add [symmetric]) simp
  then have b: "tiny * tiny = 2 powi (- 1200)" by (simp only: tiny_def) simp
  have "(2::real) powi (- 1200) < 2 powi (- 1075)"
    by (rule power_int_strict_increasing) simp_all
  moreover have p: "0 < tiny * tiny" by (intro mult_pos_pos tiny_pos)
  ultimately have "\<bar>tiny * tiny\<bar> < 2 powi (- 1075)" by (simp only: b abs_of_pos)
  from round64_tiny [OF this] p show ?thesis by (simp only: not_less_iff_gr_or_eq) simp
qed

lemma tinyPosition_margin: "computedMargin tinyPosition = Zero64 False"
  using tiny_pos
  by (simp add: computedMargin_def tinyPosition_def examplePosition_def fmul_def fdiv_def
      ofInt_def round64_small_numbers tiny_product)

text \<open>
  The claim as stated fails where the product underflows: with entry price, current
  price and quantity \<open>2 ^ (- 600)\<close> and leverage 10 the computed margin is zero, the
  return on equity keeps its old value 9, and the formula of the claim would be a NaN.
\<close>

theorem CalculatePNL_underflow_counterexample:
  "fgt (EntryPrice tinyPosition) (Zero64 False) \<and> fgt (CurrentPrice tinyPosition) (Zero64 False)
   \<and> fgt (Quantity tinyPosition) (Zero64 False) \<and> 0 < Leverage tinyPosition
   \<and> ROE tinyPosition = Fin64 9
   \<and> ROE (CalculatePNL tinyPosition) = Fin64 9
   \<and> fmul (fdiv (CurrentPNL (CalculatePNL tinyPosition)) (computedMargin tinyPosition)) (Fin64 100)
       = NaN64"
proof -
  have g: "\<not> fle (Fin64 tiny) (Zero64 False)" using tiny_pos by (simp add: fle_def)
  have pd: "fsub (Fin64 tiny) (Fin64 tiny) = Zero64 False" by (simp add: fsub_def)
  have pnl: "fmul (Zero64 False) (Fin64 tiny) = Zero64 False"
    using tiny_pos by (simp add: fmul_def)
  have m: "fdiv (fmul (Fin64 tiny) (Fin64 tiny)) (ofInt 10) = Zero64 False"
    using tinyPosition_margin
    by (simp add: computedMargin_def tinyPosition_def examplePosition_def)
  have ng: "\<not> fgt (Zero64 False) (Zero64 False)" by (simp add: fgt_def flt_def)
  have c: "CalculatePNL tinyPosition = tinyPosition\<lparr>CurrentPNL := Zero64 False\<rparr>"
    by (simp add: CalculatePNL_def Let_def tinyPosition_def examplePosition_def g pd pnl m ng)
  have pos: "fgt (Fin64 tiny) (Zero64 False)" using tiny_pos by (simp add: fgt_def flt_def)
  have nan: "fmul (fdiv (Zero64 False) (Zero64 False)) (Fin64 100) = NaN64"
    by (simp add: fdiv_def fmul_def)
  have f: "EntryPrice tinyPosition = Fin64 tiny" "CurrentPrice tinyPosition = Fin64 tiny"
    "Quantity tinyPosition = Fin64 tiny" "Leverage tinyPosition = 10" "ROE tinyPosition = Fin64 9"
    by (simp_all add: tinyPosition_def examplePosition_def)
  show ?thesis
    by (simp add: c tinyPosition_margin f pos nan)
qed

text \<open>
  C10: when the entry price, the current price or the quantity is not positive, the
  recomputation changes nothing: the position, with every field, is returned as it was.
\<close>

theorem CalculatePNL_noop:
  assumes "fle (EntryPrice p) (Zero64 False) \<or> fle (CurrentPrice p) (Zero64 False)
           \<or> fle (Quantity p) (Zero64 False)"
  shows "CalculatePNL p = p"
  using assms by (simp add: CalculatePNL_def)

theorem CalculatePNL_noop_witness:
  "CalculatePNL (examplePosition\<lparr>Quantity := Fin64 (- 2), CurrentPNL := Fin64 7, ROE := Fin64 9\<rparr>)
     = examplePosition\<lparr>Quantity := Fin64 (- 2), CurrentPNL := Fin64 7, ROE := Fin64 9\<rparr>"
  using CalculatePNL_noop
    [of "examplePosition\<lparr>Quantity := Fin64 (- 2), CurrentPNL := Fin64 7, ROE := Fin64 9\<rparr>"]
  by (simp add: examplePosition_def fle_def)

section \<open>Symbol extraction\<close>

lemma findAllParenthesized_upper:
  "s \<in> set (findAllParenthesized t) \<Longrightarrow> \<forall>c\<in>set s. isUpperAZ c"
proof (induction t arbitrary: s rule: findAllParenthesized.induct)
  case 1
  then show ?case by simp
next
  case (2 c cs)
  let ?run = "takeWhile isUpperAZ cs" and ?rest = "dropWhile isUpperAZ cs"
  show ?case
  proof (cases "c = CHR ''(''")
    case False
    with "2.prems" have "s \<in> set (findAllParenthesized cs)" by simp
    with False "2.IH"(4) show ?thesis by blast
  next
    case paren: True
    show ?thesis
    proof (cases ?rest)
      case Nil
      with paren "2.prems" have "s \<in> set (findAllParenthesized cs)" by (simp add: Let_def)
      with paren Nil "2.IH"(1)[OF paren refl refl] show ?thesis by blast
    next
      case (Cons d ds)
      show ?thesis
      proof (cases "?run \<noteq> [] \<and> d = CHR '')''")
        case True
        with paren Cons "2.prems" have "s = ?run \<or> s \<in> set (findAllParenthesized ds)"
          by (simp add: Let_def)
        then show ?thesis
        proof
          assume "s = ?run"
          then show ?thesis by (metis set_takeWhileD)
        next
          assume "s \<in> set (findAllParenthesized ds)"
          with "2.IH"(2)[OF paren refl refl Cons True] show ?thesis by blast
        qed
      next
        case False
        with paren Cons "2.prems" have "s \<in> set (findAllParenthesized cs)"
          by (simp add: Let_def)
        with "2.IH"(3)[OF paren refl refl Cons False] show ?thesis by blast
      qed
    qed
  qed
qed

lemma findAllBare_upper:
  "s \<in> set (findAllBare w t) \<Longrightarrow> \<forall>c\<in>set s. isUpperAZ c"
proof (induction w t arbitrary: s rule: findAllBare.induct)
  case (1 prevWord)
  then show ?case by simp
next
  case (2 prevWord c cs)
  show ?case
  proof (cases "\<not> prevWord \<and> isUpperAZ c \<and> 2 \<le> length (takeWhile isUpperAZ (c # cs))
            \<and> length (takeWhile isUpperAZ (c # cs)) \<le> 10
            \<and> (case dropWhile isUpperAZ (c # cs) of [] \<Rightarrow> True | d # ds \<Rightarrow> \<not> isWordChar d)")
    case True
    with "2.prems" have "s = takeWhile isUpperAZ (c # cs) \<or> s \<in> set (findAllBare True (dropWhile isUpperAZ (c # cs)))"
      by (simp add: Let_def del: takeWhile.simps dropWhile.simps)
    then show ?thesis
    proof
      assume "s = takeWhile isUpperAZ (c # cs)"
      then show ?thesis by (metis set_takeWhileD)
    next
      assume "s \<in> set (findAllBare True (dropWhile isUpperAZ (c # cs)))"
      with True "2.IH"(1)[OF refl refl] show ?thesis by blast
    qed
  next
    case False
    with "2.prems" have "s \<in> set (findAllBare (isWordChar c) cs)"
      by (simp add: Let_def del: takeWhile.simps dropWhile.simps)
    with False "2.IH"(2)[OF refl refl] show ?thesis by blast
  qed
qed

lemma dropWhile_none: "\<forall>c\<in>set s. \<not> P c \<Longrightarrow> dropWhile P s = s"
  by (cases s) auto

lemma upper_not_space: "isUpperAZ c \<Longrightarrow> \<not> isSpaceChar c"
proof
  assume u: "isUpperAZ c" and s: "isSpaceChar c"
  from s consider "(of_char c :: nat) \<le> 13" | "c = CHR '' ''"
    by (auto simp only: isSpaceChar_def)
  then show False
  proof cases
    case 1
    with u show False by (simp only: isUpperAZ_def) linarith
  next
    case 2
    then have "(of_char c :: nat) = 32" by simp
    with u show False by (simp only: isUpperAZ_def) linarith
  qed
qed

lemma upper_not_lower: "isUpperAZ c \<Longrightarrow> \<not> isLowerAZ c"
  unfolding isUpperAZ_def isLowerAZ_def by linarith

lemma submatchSymbol_upper:
  assumes "\<forall>c\<in>set s. isUpperAZ c"
  shows "submatchSymbol s = s"
proof -
  have ns: "\<forall>c\<in>set s. \<not> isSpaceChar c" using assms upper_not_space by blast
  then have "\<forall>c\<in>set (rev s). \<not> isSpaceChar c" by simp
  then have "TrimSpace s = s"
    unfolding TrimSpace_def using ns by (simp add: dropWhile_none)
  moreover have "map toUpperChar s = s"
    using assms upper_not_lower by (induction s) (auto simp: toUpperChar_def)
  ultimately show ?thesis by (simp add: submatchSymbol_def ToUpper_def)
qed

lemma countLetters_Some:
  "countLetters n s = Some m \<Longrightarrow> (\<forall>c\<in>set s. isUpperAZ c \<or> isDigit09 c)"
  by (induction s arbitrary: n) (auto split: if_splits)

lemma isValidCoinSymbol_length:
  "isValidCoinSymbol s \<Longrightarrow> 2 \<le> length s \<and> length s \<le> 10"
  by (auto simp: isValidCoinSymbol_def split: if_splits)

lemma isValidCoinSymbol_chars:
  "isValidCoinSymbol s \<Longrightarrow> \<forall>c\<in>set s. isUpperAZ c \<or> isDigit09 c"
  by (auto simp: isValidCoinSymbol_def split: if_splits option.splits dest: countLetters_Some)

lemma removeDuplicatesLoop_set:
  "set (removeDuplicatesLoop seen result xs) = set result \<union> {x \<in> set xs. \<not> seen x}"
proof (induction seen result xs rule: removeDuplicatesLoop.induct)
  case (1 seen result)
  then show ?case by simp
next
  case (2 seen result symbol symbols)
  show ?case
  proof (cases "seen symbol")
    case True
    then have "{x \<in> set (symbol # symbols). \<not> seen x} = {x \<in> set symbols. \<not> seen x}"
      by (simp only: set_simps) blast
    with True "2.IH"(2) show ?thesis by simp
  next
    case False
    have e: "removeDuplicatesLoop seen result (symbol # symbols)
               = removeDuplicatesLoop (seen(symbol := True)) (result @ [symbol]) symbols"
      using False by simp
    have "{x \<in> set symbols. \<not> (seen(symbol := True)) x} = {x \<in> set symbols. \<not> seen x} - {symbol}"
      by (rule set_eqI) (simp add: fun_upd_apply)
    then have "set (removeDuplicatesLoop (seen(symbol := True)) (result @ [symbol]) symbols)
               = set (result @ [symbol]) \<union> ({x \<in> set symbols. \<not> seen x} - {symbol})"
      using "2.IH"(1)[OF False] by (simp only:)
    also have "\<dots> = set result \<union> {x \<in> set (symbol # symbols). \<not> seen x}"
      using False by (simp only: set_append set_simps) blast
    finally show ?thesis by (simp only: e)
  qed
qed

lemma removeDuplicatesLoop_distinct:
  "distinct result \<Longrightarrow> \<forall>x\<in>set result. seen x \<Longrightarrow> distinct (removeDuplicatesLoop seen result xs)"
proof (induction seen result xs rule: removeDuplicatesLoop.induct)
  case (1 seen result)
  then show ?case by simp
next
  case (2 seen result symbol symbols)
  show ?case
  proof (cases "seen symbol")
    case True
    with 2 show ?thesis by simp
  next
    case False
    with "2.prems" have "symbol \<notin> set result" by blast
    with "2.prems" have d: "distinct (result @ [symbol])" by simp
    have a: "\<forall>x\<in>set (result @ [symbol]). (seen(symbol := True)) x"
      using "2.prems" by simp
    have "distinct (removeDuplicatesLoop (seen(symbol := True)) (result @ [symbol]) symbols)"
      by (rule "2.IH"(1)[OF False d a])
    with False show ?thesis by simp
  qed
qed

lemma removeDuplicates_set: "set (removeDuplicates xs) = set xs"
  by (simp add: removeDuplicates_def removeDuplicatesLoop_set)

lemma removeDuplicates_distinct: "distinct (removeDuplicates xs)"
  by (simp add: removeDuplicates_def removeDuplicatesLoop_distinct)

lemma all_upper_half: "\<forall>c\<in>set s. isUpperAZ c \<Longrightarrow> length s \<le> 2 * length (filter isUpperAZ s)"
  by (induction s) auto

text \<open>
  C4 (as amended): for every announcement title, the returned list has no duplicates and
  every symbol in it has 2 to 10 characters, consists of capital letters and digits
  only, is at least half alphabetic, and is not a word of the stoplist unless the title
  has it in parentheses (the symbols of the parenthesised pattern are not checked against
  the stoplist).
\<close>

theorem extractCoinSymbols_valid:
  "distinct (extractCoinSymbols title) \<and>
   (\<forall>s\<in>set (extractCoinSymbols title).
      2 \<le> length s \<and> length s \<le> 10 \<and>
      (\<forall>c\<in>set s. isUpperAZ c \<or> isDigit09 c) \<and>
      length s \<le> 2 * length (filter isUpperAZ s) \<and>
      (isCommonWord s \<longrightarrow> s \<in> set (findAllParenthesized title)))"
proof (intro conjI ballI)
  show "distinct (extractCoinSymbols title)"
    by (simp add: extractCoinSymbols_def Let_def removeDuplicates_distinct)
next
  fix s assume "s \<in> set (extractCoinSymbols title)"
  then consider
      (paren) m where "m \<in> set (findAllParenthesized title)" "s = submatchSymbol m" "isValidCoinSymbol s"
    | (bare) m where "m \<in> set (findAllBare False title)" "s = submatchSymbol m" "isValidCoinSymbol s"
        "\<not> isCommonWord s"
    unfolding extractCoinSymbols_def Let_def removeDuplicates_set by auto
  then have props: "isValidCoinSymbol s \<and> (\<forall>c\<in>set s. isUpperAZ c)
      \<and> (isCommonWord s \<longrightarrow> s \<in> set (findAllParenthesized title))"
  proof cases
    case paren
    from paren(1) have u: "\<forall>c\<in>set m. isUpperAZ c" by (rule findAllParenthesized_upper)
    then have "s = m" using paren(2) by (simp add: submatchSymbol_upper)
    with paren u show ?thesis by simp
  next
    case bare
    from bare(1) have u: "\<forall>c\<in>set m. isUpperAZ c" by (rule findAllBare_upper)
    then have "s = m" using bare(2) by (simp add: submatchSymbol_upper)
    with bare u show ?thesis by simp
  qed
  show "2 \<le> length s" using props isValidCoinSymbol_length by blast
  show "length s \<le> 10" using props isValidCoinSymbol_length by blast
  show "\<And>c. c \<in> set s \<Longrightarrow> isUpperAZ c \<or> isDigit09 c" using props by blast
  show "length s \<le> 2 * length (filter isUpperAZ s)" using props all_upper_half by blast
  show "isCommonWord s \<longrightarrow> s \<in> set (findAllParenthesized title)" using props by blast
qed

lemma toshi_eval:
  "extractCoinSymbols ''Market Support for Toshi(TOSHI) (KRW, USDT Market)'' = [''TOSHI'']"
  by code_simp

theorem extractCoinSymbols_valid_witness:
  "extractCoinSymbols ''Market Support for Toshi(TOSHI) (KRW, USDT Market)'' = [''TOSHI'']
   \<and> distinct (extractCoinSymbols ''Market Support for Toshi(TOSHI) (KRW, USDT Market)'')
   \<and> length ''TOSHI'' \<le> 2 * length (filter isUpperAZ ''TOSHI'')"
  using extractCoinSymbols_valid [of "''Market Support for Toshi(TOSHI) (KRW, USDT Market)''"]
  by (simp add: toshi_eval)

text \<open>
  The claim as stated fails: a stoplist word in parentheses is returned.
\<close>

theorem extractCoinSymbols_stoplist_counterexample:
  "extractCoinSymbols ''Market Support for Tether(USDT)'' = [''USDT''] \<and> isCommonWord ''USDT''"
  by code_simp

section \<open>Backoff of the poller\<close>

lemma rateLimited_noRetryAfter: "rateLimited now noRetryAfter um = applyBackoff now um"
  by (simp add: rateLimited_def noRetryAfter_def)

lemma checkAnnouncements_noRetryAfter:
  "backoffUntil um \<le> tcheck \<Longrightarrow>
   checkAnnouncements tcheck now (Fetched noRetryAfter) um = ([], applyBackoff now um)"
  by (simp add: checkAnnouncements_def noRetryAfter_def rateLimited_def)

lemma applyBackoff_failureCount: "failureCount (applyBackoff now um) = failureCount um + 1"
  by (simp add: applyBackoff_def Let_def)

lemma fold_applyBackoff_failureCount:
  "failureCount (fold applyBackoff ts um) = failureCount um + of_nat (length ts)"
  by (induction ts arbitrary: um) (simp_all add: applyBackoff_failureCount)

lemma sint_two_power:
  assumes "k < 63"
  shows "sint (2 ^ k :: 64 word) = 2 ^ k"
proof -
  have lt: "(2::int) ^ k < 2 ^ 63" using assms by (intro power_strict_increasing) auto
  have ge: "- ((2::int) ^ 63) \<le> 2 ^ k"
    by (rule order_trans [of _ 0]) (simp_all del: power_numeral)
  have "sint (2 ^ k :: 64 word) = sint (word_of_int (2 ^ k) :: 64 word)" by simp
  also have "\<dots> = signed_take_bit 63 ((2::int) ^ k)" by (simp only: sint_sbintrunc') simp
  also have "\<dots> = 2 ^ k"
    using ge lt by (rule signed_take_bit_int_eq_self)
  finally show ?thesis .
qed

lemma applyBackoff_first_63:
  assumes "failureCount um = of_nat k" "k < 63"
  shows "backoffUntil (applyBackoff now um) = now + int (min (2 ^ k) 10) * 60000000000"
proof -
  have u: "unat (of_nat k :: 64 word) = k"
    using assms(2) by (simp add: unat_of_nat)
  have sh: "push_bit k (1 :: 64 word) = 2 ^ k" by (simp add: push_bit_of_1)
  have s: "sint (2 ^ k :: 64 word) = 2 ^ k" using assms(2) by (rule sint_two_power)
  show ?thesis
  proof (cases "k < 4")
    case True
    then have "k = 0 \<or> k = 1 \<or> k = 2 \<or> k = 3" by arith
    then show ?thesis
      using assms(1) by (auto simp: applyBackoff_def Let_def Minute_def Second_def)
  next
    case False
    then have "(2::int) ^ 4 \<le> 2 ^ k" by (intro power_increasing) auto
    then have big: "(10::int) < 2 ^ k" by simp
    have "(2::nat) ^ 4 \<le> 2 ^ k" using False by (intro power_increasing) auto
    then have m: "min ((2::nat) ^ k) 10 = 10" by simp
    show ?thesis
      using assms(1) u sh s big
      by (simp add: applyBackoff_def Let_def Minute_def Second_def m)
  qed
qed

text \<open>
  C5: starting from failure count 0, successive rate-limit responses without a usable
  retry value are claimed to back off for 1, 2, 4, 8, 10, 10, ... minutes. By
  \<open>applyBackoff_first_63\<close> this holds for the first 63 responses. At the 64th the
  shift gives the least 64-bit integer, which is not greater than 10, and its product with
  one minute wraps to zero: the poller does not back off at all.
\<close>

theorem applyBackoff_64th_rate_limit:
  "backoffUntil (applyBackoff now (fold applyBackoff (map t [0..<63]) NewUpbitMonitor)) = now
   \<and> failureCount (applyBackoff now (fold applyBackoff (map t [0..<63]) NewUpbitMonitor)) = 64"
proof -
  let ?um = "fold applyBackoff (map t [0..<63]) NewUpbitMonitor"
  have fc: "failureCount ?um = 63"
    by (simp add: fold_applyBackoff_failureCount NewUpbitMonitor_def)
  then show ?thesis
    by (simp add: applyBackoff_def Let_def Minute_def Second_def)
qed

subsection \<open>Retry-After\<close>

lemma sint_seconds_duration:
  assumes "0 < sint (seconds :: 64 word)" "sint seconds \<le> 9223372036"
  shows "sint (seconds * Second) = sint seconds * 1000000000"
proof -
  have s: "sint Second = 1000000000" by (simp add: Second_def)
  have lo: "- (2 ^ 63) \<le> sint seconds * 1000000000" using assms(1) by simp
  have "sint seconds * 1000000000 \<le> 9223372036 * 1000000000"
    using assms(2) by (intro mult_right_mono) auto
  then have hi: "sint seconds * 1000000000 < 2 ^ 63" by simp
  have "sint (seconds * Second) = signed_take_bit 63 (sint seconds * 1000000000)"
    by (simp add: sint_word_mult s)
  also have "\<dots> = sint seconds * 1000000000"
    using lo hi by (rule signed_take_bit_int_eq_self)
  finally show ?thesis .
qed

lemma Atoi_Nil: "Atoi [] = None"
  by (simp add: Atoi_def)

lemma retry_after_within_range:
  assumes "StatusCode resp = 429" "backoffUntil um \<le> tcheck"
  shows "(\<forall>seconds. Atoi (hdrRetryAfter resp) = Some seconds \<and> 0 < sint seconds
            \<and> sint seconds \<le> 9223372036 \<longrightarrow>
          checkAnnouncements tcheck now (Fetched resp) um
            = ([], um\<lparr>backoffUntil := now + sint seconds * 1000000000\<rparr>))
       \<and> (hdrRetryAfter resp = [] \<or> Atoi (hdrRetryAfter resp) = None
            \<or> (\<exists>seconds. Atoi (hdrRetryAfter resp) = Some seconds \<and> sint seconds \<le> 0) \<longrightarrow>
          checkAnnouncements tcheck now (Fetched resp) um = ([], applyBackoff now um))"
proof -
  have c: "checkAnnouncements tcheck now (Fetched resp) um = ([], rateLimited now resp um)"
    using assms by (simp add: checkAnnouncements_def)
  have a: "rateLimited now resp um = um\<lparr>backoffUntil := now + sint seconds * 1000000000\<rparr>"
    if "Atoi (hdrRetryAfter resp) = Some seconds" "0 < sint seconds" "sint seconds \<le> 9223372036"
    for seconds
  proof -
    from that(1) have "hdrRetryAfter resp \<noteq> []" using Atoi_Nil by auto
    with that show ?thesis
      by (simp add: rateLimited_def Let_def sint_seconds_duration)
  qed
  have b: "rateLimited now resp um = applyBackoff now um"
    if "hdrRetryAfter resp = [] \<or> Atoi (hdrRetryAfter resp) = None
          \<or> (\<exists>seconds. Atoi (hdrRetryAfter resp) = Some seconds \<and> sint seconds \<le> 0)"
    using that by (auto simp: rateLimited_def Let_def)
  show ?thesis using a b by (simp only: c) blast
qed

lemma retry_after_beyond_range:
  assumes "StatusCode resp = 429" "backoffUntil um \<le> tcheck"
    and "Atoi (hdrRetryAfter resp) = Some seconds" "9223372036 < sint seconds"
  shows "checkAnnouncements tcheck now (Fetched resp) um
           = ([], um\<lparr>backoffUntil := now + sint (seconds * Second)\<rparr>)"
    and "sint (seconds * Second) < sint seconds * 1000000000"
    and "snd (checkAnnouncements tcheck now (Fetched resp) um) \<noteq> applyBackoff now um"
proof -
  from assms(3) have ne: "hdrRetryAfter resp \<noteq> []" using Atoi_Nil by auto
  have pos: "0 < sint seconds" using assms(4) by simp
  show c: "checkAnnouncements tcheck now (Fetched resp) um
           = ([], um\<lparr>backoffUntil := now + sint (seconds * Second)\<rparr>)"
    using assms(1-3) ne pos by (simp add: checkAnnouncements_def rateLimited_def Let_def)
  have "sint (seconds * Second) < 2 ^ (LENGTH(64) - 1)" by (rule sint_lt)
  then have "sint (seconds * Second) < 9223372037 * 1000000000" by simp
  also have "\<dots> \<le> sint seconds * 1000000000"
    using assms(4) by (intro mult_right_mono) auto
  finally show "sint (seconds * Second) < sint seconds * 1000000000" .
  have f: "failureCount (applyBackoff now um) \<noteq> failureCount um"
    by (simp add: applyBackoff_failureCount)
  show "snd (checkAnnouncements tcheck now (Fetched resp) um) \<noteq> applyBackoff now um"
  proof
    assume "snd (checkAnnouncements tcheck now (Fetched resp) um) = applyBackoff now um"
    then have "failureCount (um\<lparr>backoffUntil := now + sint (seconds * Second)\<rparr>)
                 = failureCount (applyBackoff now um)"
      by (simp only: c snd_conv)
    with f show False by simp
  qed
qed

text \<open>
  C6: a Retry-After value that parses as a positive number of seconds is claimed to
  set \<^verbatim>\<open>backoffUntil\<close> to the response time plus that many seconds. Up to 9223372036
  seconds it does, and a missing, unparsable or non-positive value takes the
  exponential backoff (\<open>retry_after_within_range\<close>). From 9223372037 seconds on the
  product with \<^verbatim>\<open>time.Second\<close> overflows the 64 bits of a \<^verbatim>\<open>time.Duration\<close>
  (\<open>retry_after_beyond_range\<close>): for the value 9223372037, handled at time 1000, the
  duration wraps to a negative number, \<^verbatim>\<open>backoffUntil\<close> lies in the past, and the
  failure count is not changed, so the value is neither honoured nor replaced by the
  exponential backoff.
\<close>

theorem retry_after_overflows_duration:
  "Atoi ''9223372037'' = Some 9223372037 \<and> 0 < sint (9223372037 :: 64 word)
   \<and> checkAnnouncements 5 1000 (Fetched (retryAfterResponse ''9223372037'')) NewUpbitMonitor
        = ([], NewUpbitMonitor\<lparr>backoffUntil := 1000 - 9223372036709551616\<rparr>)
   \<and> (1000 - 9223372036709551616 :: int) \<noteq> 1000 + 9223372037 * 1000000000
   \<and> (1000 - 9223372036709551616 :: int) < 1000
   \<and> backoffUntil (applyBackoff 1000 NewUpbitMonitor) = 1000 + 60000000000"
  by (simp add: Atoi_def isDigit09_def checkAnnouncements_def rateLimited_def
      retryAfterResponse_def NewUpbitMonitor_def Second_def Minute_def Let_def applyBackoff_def)

section \<open>The set of processed symbols\<close>

lemma isMarketSupportAnnouncement_kelvin:
  "isMarketSupportAnnouncement ([CHR 0xE2, CHR 0x84, CHR 0xAA] @ ''RW Market: ABC'')
   \<and> isMarketSupportAnnouncement ''L'' = False
   \<and> isMarketSupportAnnouncement ([CHR ''L'', CHR 0xC4, CHR 0xB0] @ ''STING'')"
  by code_simp

lemma dedupStep_refl: "dedupStep um ([], um)"
  by (simp add: dedupStep_def)

lemma dedupStep_same_marks:
  "processedCoins um' = processedCoins um \<Longrightarrow> dedupStep um ([], um')"
  by (simp add: dedupStep_def)

lemma dedupStep_trans:
  assumes "dedupStep um (sent, um1)" "dedupStep um1 (sent', um2)"
  shows "dedupStep um (sent @ sent', um2)"
  using assms unfolding dedupStep_def by (simp only: fst_conv snd_conv set_append distinct_append) blast

lemma processCoin_dedup: "dedupStep um (processCoin coin um)"
  by (simp add: processCoin_def dedupStep_def isNewCoin_def markCoinAsProcessed_def Let_def)

lemma processCoins_dedup: "dedupStep um (processCoins coins um)"
proof (induction coins arbitrary: um)
  case Nil
  then show ?case by (simp add: dedupStep_refl)
next
  case (Cons coin coins)
  obtain sent um1 where p: "processCoin coin um = (sent, um1)" by (cases "processCoin coin um")
  obtain sent' um2 where q: "processCoins coins um1 = (sent', um2)" by (cases "processCoins coins um1")
  have "dedupStep um (sent, um1)" using processCoin_dedup [of um coin] p by simp
  moreover have "dedupStep um1 (sent', um2)" using Cons.IH [of um1] q by simp
  ultimately show ?case using p q by (simp add: dedupStep_trans)
qed

lemma processElement_dedup: "dedupStep um (processElement el um)"
  by (simp add: processElement_def Let_def dedupStep_refl processCoins_dedup)

lemma parseAnnouncements_dedup: "dedupStep um (parseAnnouncements texts um)"
proof (induction texts arbitrary: um)
  case Nil
  then show ?case by (simp add: dedupStep_refl)
next
  case (Cons el els)
  obtain sent um1 where p: "processElement el um = (sent, um1)" by (cases "processElement el um")
  obtain sent' um2 where q: "parseAnnouncements els um1 = (sent', um2)"
    by (cases "parseAnnouncements els um1")
  have "dedupStep um (sent, um1)" using processElement_dedup [of um el] p by simp
  moreover have "dedupStep um1 (sent', um2)" using Cons.IH [of um1] q by simp
  ultimately show ?case using p q by (simp add: dedupStep_trans)
qed

lemma handleError_marks: "processedCoins (handleError now um) = processedCoins um"
  by (simp add: handleError_def Let_def)

lemma applyBackoff_marks: "processedCoins (applyBackoff now um) = processedCoins um"
  by (simp add: applyBackoff_def Let_def)

lemma rateLimited_marks: "processedCoins (rateLimited now resp um) = processedCoins um"
  by (simp add: rateLimited_def Let_def applyBackoff_marks split: option.splits)

lemma dedupStep_marks_eq:
  "processedCoins um0 = processedCoins um \<Longrightarrow> dedupStep um0 r \<Longrightarrow> dedupStep um r"
  by (simp add: dedupStep_def)

lemma checkAnnouncements_dedup: "dedupStep um (checkAnnouncements tcheck now fetch um)"
proof (cases "tcheck < backoffUntil um")
  case True
  then show ?thesis by (simp add: checkAnnouncements_def dedupStep_refl)
next
  case False
  show ?thesis
  proof (cases fetch)
    case RequestFailed
    with False show ?thesis
      by (simp add: checkAnnouncements_def dedupStep_same_marks handleError_marks)
  next
    case FetchFailed
    with False show ?thesis
      by (simp add: checkAnnouncements_def dedupStep_same_marks handleError_marks)
  next
    case (Fetched resp)
    let ?um1 = "um\<lparr>failureCount := 0\<rparr>"
    let ?um2 = "if hdrETag resp \<noteq> [] then ?um1\<lparr>lastETag := hdrETag resp\<rparr> else ?um1"
    let ?um3 = "if hdrLastModified resp \<noteq> [] then ?um2\<lparr>lastModified := hdrLastModified resp\<rparr> else ?um2"
    have m3: "processedCoins ?um3 = processedCoins um" by simp
    have ok: "dedupStep um (case bodyElements resp of
                  None \<Rightarrow> ([], handleError now ?um3)
                | Some texts \<Rightarrow> parseAnnouncements texts ?um3)"
    proof (cases "bodyElements resp")
      case None
      then show ?thesis
        using m3 by (simp add: dedupStep_same_marks handleError_marks)
    next
      case (Some texts)
      have "dedupStep ?um3 (parseAnnouncements texts ?um3)" by (rule parseAnnouncements_dedup)
      then have "dedupStep um (parseAnnouncements texts ?um3)"
        using m3 by (rule dedupStep_marks_eq [rotated])
      with Some show ?thesis by simp
    qed
    show ?thesis
      using False Fetched ok
      by (simp add: checkAnnouncements_def Let_def dedupStep_same_marks
          handleError_marks applyBackoff_marks rateLimited_marks)
  qed
qed

lemma InjectTestCoin_dedup: "dedupStep um (InjectTestCoin coin um)"
  by (simp add: InjectTestCoin_def dedupStep_def Let_def)

lemma sessionStep_dedup: "x \<noteq> Clear \<Longrightarrow> dedupStep um (sessionStep x um)"
  by (cases x)
     (simp_all add: checkAnnouncements_dedup InjectTestCoin_dedup dedupStep_same_marks
        InjectTestCoinForUser_def Let_def)

lemma runSession_dedup: "noClear xs \<Longrightarrow> dedupStep um (runSession xs um)"
proof (induction xs arbitrary: um)
  case Nil
  then show ?case by (simp add: dedupStep_refl)
next
  case (Cons x xs)
  obtain sent um1 where p: "sessionStep x um = (sent, um1)" by (cases "sessionStep x um")
  obtain sent' um2 where q: "runSession xs um1 = (sent', um2)" by (cases "runSession xs um1")
  from Cons.prems have nx: "x \<noteq> Clear" and nxs: "noClear xs" by (simp_all add: noClear_def)
  have "dedupStep um (sent, um1)" using sessionStep_dedup [OF nx, of um] p by simp
  moreover have "dedupStep um1 (sent', um2)" using Cons.IH [OF nxs, of um1] q by simp
  ultimately show ?case using p q by (simp add: dedupStep_trans)
qed

lemma processCoin_marks: "processedCoins (snd (processCoin coin um)) coin"
  by (simp add: processCoin_def isNewCoin_def markCoinAsProcessed_def Let_def)

text \<open>
  C7: in a session without the administrative clear, a symbol that is marked stays
  marked and is never sent on the channel of new coins again; no symbol is sent twice;
  and the mark is written whether or not the channel has room, before the send, so that
  a symbol whose first event was dropped is not sent when it is extracted again.
\<close>

theorem dedup_marked_never_resent:
  assumes "noClear xs"
  shows "(processedCoins um s \<longrightarrow>
            processedCoins (snd (runSession xs um)) s \<and> s \<notin> set (fst (runSession xs um)))
       \<and> distinct (fst (runSession xs um))
       \<and> processedCoins (snd (processCoin s um)) s"
proof -
  have d: "dedupStep um (runSession xs um)" using assms by (rule runSession_dedup)
  then have "processedCoins um s \<longrightarrow>
            processedCoins (snd (runSession xs um)) s \<and> s \<notin> set (fst (runSession xs um))"
    unfolding dedupStep_def by blast
  moreover have "distinct (fst (runSession xs um))" using d unfolding dedupStep_def by blast
  ultimately show ?thesis using processCoin_marks by blast
qed

lemma toshi_dropped_then_deduplicated:
  "fst (checkAnnouncements 1 1 (Fetched toshiResponse) fullMonitor) = []
   \<and> processedCoins (snd (checkAnnouncements 1 1 (Fetched toshiResponse) fullMonitor)) ''TOSHI''
   \<and> fst (runSession [ReceiveNewCoin, CheckAnnouncements 2 2 (Fetched toshiResponse)]
        (snd (checkAnnouncements 1 1 (Fetched toshiResponse) fullMonitor))) = []
   \<and> fst (checkAnnouncements 1 1 (Fetched toshiResponse) NewUpbitMonitor) = [''TOSHI'']"
  by code_simp

theorem dedup_marked_never_resent_witness:
  "processedCoins (snd (checkAnnouncements 1 1 (Fetched toshiResponse) fullMonitor)) ''TOSHI''
   \<and> ''TOSHI'' \<notin> set (fst (runSession [ReceiveNewCoin, CheckAnnouncements 2 2 (Fetched toshiResponse)]
        (snd (checkAnnouncements 1 1 (Fetched toshiResponse) fullMonitor))))"
proof -
  have n: "noClear [ReceiveNewCoin, CheckAnnouncements 2 2 (Fetched toshiResponse)]"
    by (simp add: noClear_def)
  show ?thesis
    using dedup_marked_never_resent [OF n,
        of "snd (checkAnnouncements 1 1 (Fetched toshiResponse) fullMonitor)" "''TOSHI''"]
      toshi_dropped_then_deduplicated
    by simp
qed

section \<open>Supervised restart\<close>

lemma safeGo_normal_return:
  "fn k = ReturnsNormally \<Longrightarrow> safeGo (Suc fuel) fn k = ([RunFn k, LogCompletedNormally], True)"
  by simp

lemma safeGo_panic:
  "fn k = Panics \<Longrightarrow>
   safeGo (Suc fuel) fn k =
     ([RunFn k, LogPanicRecovered, LogRestarting, Sleep 10] @ fst (safeGo fuel fn (Suc k)),
      snd (safeGo fuel fn (Suc k)))"
  by (simp add: split_beta)

lemma safeGoTE_panic:
  "fn k = Panics \<Longrightarrow>
   safeGoTE (Suc fuel) fn k =
     ([RunFn k, LogPanicRecovered, LogRestarting, Sleep 10] @ fst (safeGoTE fuel fn (Suc k)),
      snd (safeGoTE fuel fn (Suc k)))"
  by (simp add: split_beta)

lemma safeGoTE_normal_return:
  "fn k = ReturnsNormally \<Longrightarrow>
   safeGoTE (Suc fuel) fn k =
     ([RunFn k, LogCompletedNormally] @ fst (safeGoTE fuel fn (Suc k)),
      snd (safeGoTE fuel fn (Suc k)))"
  by (simp add: split_beta)

lemma safeGoTE_never_exits: "snd (safeGoTE fuel fn k) = False"
  by (induction fuel arbitrary: k) (auto simp: split_beta split: prod.splits bool.splits)

text \<open>
  C1: a supervised function that returns normally is logged as completed and never run
  again, and one that panics is run again after 10 seconds, for both supervisors. For
  \<^verbatim>\<open>safeGo\<close> this is \<open>safeGo_normal_return\<close> and \<open>safeGo_panic\<close>. \<^verbatim>\<open>safeGoTE\<close>
  restarts after a panic (\<open>safeGoTE_panic\<close>) but also after a normal return: its loop
  is never left (\<open>safeGoTE_never_exits\<close>), and a function that always returns is run
  in every iteration.
\<close>

theorem safeGoTE_reruns_after_normal_return:
  "safeGoTE 3 (\<lambda>_. ReturnsNormally) 0 =
     ([RunFn 0, LogCompletedNormally, RunFn 1, LogCompletedNormally, RunFn 2, LogCompletedNormally],
      False)
   \<and> safeGo 3 (\<lambda>_. ReturnsNormally) 0 = ([RunFn 0, LogCompletedNormally], True)"
  by (simp add: numeral_3_eq_3)

section \<open>Reconciliation\<close>

lemma CalculatePNL_frame:
  "Status (CalculatePNL p) = Status p" "CurrentPrice (CalculatePNL p) = CurrentPrice p"
  "TakeProfitPrice (CalculatePNL p) = TakeProfitPrice p"
  by (simp_all add: CalculatePNL_def Let_def)



lemma executeTakeProfit_closed:
  "transitionedToClosed (executeTakeProfit env p) \<longleftrightarrow> closePositionOk env \<and> saveTakeProfit env = DbOk"
  by (simp add: executeTakeProfit_def transitionedToClosed_def Let_def)

text \<open>
  C2 (as amended): in a reconciliation pass over an open position, the persisted record
  becomes Closed if and only if the credentials decrypt and either the venue query fails
  with an error or reports the position absent or of size "0", and the record is saved;
  or the position is live, the price is fetched, the updated record is saved, the price
  has reached the take-profit target, the closing action succeeds and the closed record
  is saved. In the first case, after the venue query the engine saves the closed record,
  notifies the actor and does nothing else.
\<close>

theorem updatePositionPNL_closed_iff:
  assumes "Status position = PositionOpen"
  shows "(transitionedToClosed (updatePositionPNL env position) \<longleftrightarrow>
            credentialsOk env \<and>
            (positionGone (getPosition env) \<and> saveVanished env = DbOk
             \<or> \<not> positionGone (getPosition env) \<and> saveUpdated env = DbOk
                 \<and> (\<exists>price. getSymbolPrice env = Some price \<and> fge price (TakeProfitPrice position))
                 \<and> closePositionOk env \<and> saveTakeProfit env = DbOk))
       \<and> (credentialsOk env \<and> positionGone (getPosition env) \<and> saveVanished env = DbOk \<longrightarrow>
            updatePositionPNL env position =
              [GetPositionCall (Symbol position),
               SavePosition (vanishedRecord env position) DbOk,
               SendMessage (UserTelegramID position) (MsgAutoClosed (Symbol position))])"
proof -
  have tp: "ShouldTakeProfit (CalculatePNL (position\<lparr>CurrentPrice := price\<rparr>))
              \<longleftrightarrow> fge price (TakeProfitPrice position)" for price
    using assms by (simp add: ShouldTakeProfit_def CalculatePNL_frame)
  have st: "Status (CalculatePNL (position\<lparr>CurrentPrice := price\<rparr>)) = PositionOpen" for price
    using assms by (simp add: CalculatePNL_frame)
  show ?thesis
  proof (cases "credentialsOk env")
    case False
    then show ?thesis by (simp add: updatePositionPNL_def transitionedToClosed_def)
  next
    case cred: True
    show ?thesis
    proof (cases "positionGone (getPosition env)")
      case True
      with cred show ?thesis
        by (simp add: updatePositionPNL_def transitionedToClosed_def Let_def vanishedRecord_def)
    next
      case gone: False
      show ?thesis
      proof (cases "getSymbolPrice env")
        case None
        with cred gone show ?thesis
          by (simp add: updatePositionPNL_def transitionedToClosed_def)
      next
        case (Some price)
        have ex: "transitionedToClosed (executeTakeProfit env (CalculatePNL (position\<lparr>CurrentPrice := price\<rparr>)))
                  \<longleftrightarrow> closePositionOk env \<and> saveTakeProfit env = DbOk"
          by (rule executeTakeProfit_closed)
        show ?thesis
          using cred gone Some ex tp [of price] st [of price]
          by (auto simp: updatePositionPNL_def transitionedToClosed_def Let_def)
      qed
    qed
  qed
qed

theorem updatePositionPNL_closed_iff_witness:
  "transitionedToClosed (updatePositionPNL (transientError\<lparr>getPosition := GetPositionLive ''0''\<rparr>) examplePosition)
   \<and> \<not> transitionedToClosed (updatePositionPNL (transientError\<lparr>getPosition := GetPositionLive ''2''\<rparr>) examplePosition)"
proof -
  have o: "Status examplePosition = PositionOpen" by (simp add: examplePosition_def)
  have t: "TakeProfitPrice examplePosition = Fin64 300" by (simp add: examplePosition_def)
  show ?thesis
    using updatePositionPNL_closed_iff [OF o, of "transientError\<lparr>getPosition := GetPositionLive ''0''\<rparr>", THEN conjunct1]
          updatePositionPNL_closed_iff [OF o, of "transientError\<lparr>getPosition := GetPositionLive ''2''\<rparr>", THEN conjunct1]
    by (simp add: transientError_def positionGone_def t fge_def fle_def)
qed

text \<open>
  The claim as stated fails: when the venue query returns an error, the record is saved as
  Closed and the actor is told that the position no longer exists.
\<close>

theorem transient_error_closes_counterexample:
  "getPosition transientError = GetPositionError
   \<and> updatePositionPNL transientError examplePosition =
       [GetPositionCall ''TOSHIUSDT'',
        SavePosition (examplePosition\<lparr>Status := PositionClosed, ClosedAt := Some 7\<rparr>) DbOk,
        SendMessage 42 (MsgAutoClosed ''TOSHIUSDT'')]
   \<and> transitionedToClosed (updatePositionPNL transientError examplePosition)"
  by (simp add: updatePositionPNL_def transientError_def positionGone_def Let_def
      transitionedToClosed_def examplePosition_def)

section \<open>Bounded concurrency\<close>

lemma filter_update_length:
  "i < length xs \<Longrightarrow>
   length (filter P (xs[i := y])) + (if P (xs ! i) then 1 else 0)
     = length (filter P xs) + (if P y then 1 else 0)"
proof (induction xs arbitrary: i)
  case Nil
  then show ?case by simp
next
  case (Cons x xs)
  show ?case
  proof (cases i)
    case 0
    then show ?thesis by simp
  next
    case (Suc j)
    with Cons.prems have "j < length xs" by simp
    from Cons.IH [OF this] Suc show ?thesis by simp
  qed
qed

lemma filter_update_same:
  "i < length xs \<Longrightarrow> P (xs ! i) = P y \<Longrightarrow> length (filter P (xs[i := y])) = length (filter P xs)"
  using filter_update_length [of i xs P y] by (simp split: if_splits)

lemma filter_update_gain:
  "i < length xs \<Longrightarrow> \<not> P (xs ! i) \<Longrightarrow> P y \<Longrightarrow> length (filter P (xs[i := y])) = length (filter P xs) + 1"
  using filter_update_length [of i xs P y] by simp

lemma filter_update_loss:
  "i < length xs \<Longrightarrow> P (xs ! i) \<Longrightarrow> \<not> P y \<Longrightarrow> length (filter P (xs[i := y])) + 1 = length (filter P xs)"
  using filter_update_length [of i xs P y] by simp

lemma poolInvariant_initial: "poolInvariant NewTradingEngine"
  by (simp add: poolInvariant_def NewTradingEngine_def)

lemma advance_invariant:
  assumes inv: "poolInvariant e" and st: "advance i e = Some e'"
  shows "poolInvariant e'"
proof -
  from st have i: "i < length (workers e)"
    by (auto simp: advance_def split: if_splits)
  obtain u pc where w: "workers e ! i = (u, pc)" by (cases "workers e ! i")
  from inv have slots: "apiWorkerPool e = length (filter holdsSlot (workers e))"
    and cap: "apiWorkerPool e \<le> poolCapacity"
    and locks: "\<And>v. length (filter (holdsLock v) (workers e)) = (if userMutexes e v then 1 else 0)"
    by (simp_all add: poolInvariant_def)
  show ?thesis
  proof (cases pc)
    case AtStart
    with st i w have room: "apiWorkerPool e < poolCapacity"
      and e': "e' = e\<lparr>apiWorkerPool := apiWorkerPool e + 1, workers := (workers e)[i := (u, HoldsSlot)]\<rparr>"
      by (auto simp: advance_def split: if_splits)
    have "length (filter holdsSlot ((workers e)[i := (u, HoldsSlot)])) = length (filter holdsSlot (workers e)) + 1"
      using i w AtStart by (intro filter_update_gain) auto
    moreover have "length (filter (holdsLock v) ((workers e)[i := (u, HoldsSlot)])) = length (filter (holdsLock v) (workers e))" for v
      using i w AtStart by (intro filter_update_same) auto
    ultimately show ?thesis
      using slots room locks by (simp add: poolInvariant_def e')
  next
    case HoldsSlot
    with st i w have free: "\<not> userMutexes e u"
      and e': "e' = e\<lparr>userMutexes := (userMutexes e)(u := True), workers := (workers e)[i := (u, InCall)]\<rparr>"
      by (auto simp: advance_def split: if_splits)
    have s: "length (filter holdsSlot ((workers e)[i := (u, InCall)])) = length (filter holdsSlot (workers e))"
      using i w HoldsSlot by (intro filter_update_same) auto
    have own: "length (filter (holdsLock u) ((workers e)[i := (u, InCall)])) = length (filter (holdsLock u) (workers e)) + 1"
      using i w HoldsSlot by (intro filter_update_gain) auto
    have other: "length (filter (holdsLock v) ((workers e)[i := (u, InCall)])) = length (filter (holdsLock v) (workers e))"
      if "v \<noteq> u" for v
      using i w HoldsSlot that by (intro filter_update_same) auto
    have "length (filter (holdsLock v) ((workers e)[i := (u, InCall)]))
            = (if ((userMutexes e)(u := True)) v then 1 else 0)" for v
    proof (cases "v = u")
      case True
      with own locks [of u] free show ?thesis by simp
    next
      case False
      with other [OF False] locks [of v] show ?thesis by simp
    qed
    then show ?thesis
      using slots cap s by (simp add: poolInvariant_def e')
  next
    case InCall
    with st i w have e': "e' = e\<lparr>workers := (workers e)[i := (u, CallEnded)]\<rparr>"
      by (auto simp: advance_def split: if_splits)
    have "length (filter holdsSlot ((workers e)[i := (u, CallEnded)])) = length (filter holdsSlot (workers e))"
      using i w InCall by (intro filter_update_same) auto
    moreover have "length (filter (holdsLock v) ((workers e)[i := (u, CallEnded)])) = length (filter (holdsLock v) (workers e))" for v
      using i w InCall by (intro filter_update_same) auto
    ultimately show ?thesis
      using slots cap locks by (simp add: poolInvariant_def e')
  next
    case CallEnded
    with st i w have e': "e' = e\<lparr>userMutexes := (userMutexes e)(u := False), workers := (workers e)[i := (u, Unlocked)]\<rparr>"
      by (auto simp: advance_def split: if_splits)
    have s: "length (filter holdsSlot ((workers e)[i := (u, Unlocked)])) = length (filter holdsSlot (workers e))"
      using i w CallEnded by (intro filter_update_same) auto
    have own: "length (filter (holdsLock u) ((workers e)[i := (u, Unlocked)])) + 1 = length (filter (holdsLock u) (workers e))"
      using i w CallEnded by (intro filter_update_loss) auto
    have other: "length (filter (holdsLock v) ((workers e)[i := (u, Unlocked)])) = length (filter (holdsLock v) (workers e))"
      if "v \<noteq> u" for v
      using i w CallEnded that by (intro filter_update_same) auto
    have "length (filter (holdsLock v) ((workers e)[i := (u, Unlocked)]))
            = (if ((userMutexes e)(u := False)) v then 1 else 0)" for v
    proof (cases "v = u")
      case True
      with own locks [of u] show ?thesis by (simp split: if_splits)
    next
      case False
      with other [OF False] locks [of v] show ?thesis by simp
    qed
    then show ?thesis
      using slots cap s by (simp add: poolInvariant_def e')
  next
    case Unlocked
    with st i w have e': "e' = e\<lparr>apiWorkerPool := apiWorkerPool e - 1, workers := (workers e)[i := (u, AtStart)]\<rparr>"
      by (auto simp: advance_def split: if_splits)
    have "length (filter holdsSlot ((workers e)[i := (u, AtStart)])) + 1 = length (filter holdsSlot (workers e))"
      using i w Unlocked by (intro filter_update_loss) auto
    with slots cap have s: "apiWorkerPool e - 1 = length (filter holdsSlot ((workers e)[i := (u, AtStart)]))"
      and c: "apiWorkerPool e - 1 \<le> poolCapacity"
      by arith+
    have "length (filter (holdsLock v) ((workers e)[i := (u, AtStart)])) = length (filter (holdsLock v) (workers e))" for v
      using i w Unlocked by (intro filter_update_same) auto
    then show ?thesis
      using s c locks by (simp add: poolInvariant_def e')
  qed
qed

lemma engineStep_invariant:
  assumes "poolInvariant e" "engineStep a e = Some e'"
  shows "poolInvariant e'"
proof (cases a)
  case (Launch u)
  with assms have e': "e' = e\<lparr>workers := workers e @ [(u, AtStart)]\<rparr>" by auto
  show ?thesis using assms(1) by (simp add: poolInvariant_def e')
next
  case (Advance i)
  with assms show ?thesis using advance_invariant by simp
next
  case (TestCoinBegin u)
  with assms have e': "e' = e\<lparr>testTrade := Some u\<rparr>" by (auto split: if_splits)
  show ?thesis using assms(1) by (simp add: poolInvariant_def e')
next
  case TestCoinEnd
  with assms have e': "e' = e\<lparr>testTrade := None\<rparr>" by (auto split: if_splits)
  show ?thesis using assms(1) by (simp add: poolInvariant_def e')
qed

lemma runEngine_invariant:
  "poolInvariant e \<Longrightarrow> runEngine as e = Some e' \<Longrightarrow> poolInvariant e'"
proof (induction as arbitrary: e)
  case Nil
  then show ?case by simp
next
  case (Cons a as)
  then obtain e1 where s: "engineStep a e = Some e1" and r: "runEngine as e1 = Some e'"
    by (auto split: option.splits)
  from Cons.prems(1) s have "poolInvariant e1" by (rule engineStep_invariant)
  from Cons.IH [OF this r] show ?case .
qed

lemma filter_length_mono:
  "(\<And>x. P x \<Longrightarrow> Q x) \<Longrightarrow> length (filter P xs) \<le> length (filter Q xs)"
  by (induction xs) auto

lemma poolInvariant_bounds:
  assumes "poolInvariant e"
  shows "pooledCalls e \<le> 10" "pooledCallsFor u e \<le> 1"
proof -
  have "length (filter inCall (workers e)) \<le> length (filter holdsSlot (workers e))"
    by (rule filter_length_mono) auto
  with assms show "pooledCalls e \<le> 10"
    by (simp add: pooledCalls_def poolInvariant_def poolCapacity_def)
  have "length (filter (inCallFor u) (workers e)) \<le> length (filter (holdsLock u) (workers e))"
    by (rule filter_length_mono) auto
  moreover from assms have "length (filter (holdsLock u) (workers e)) \<le> 1"
    by (simp add: poolInvariant_def)
  ultimately show "pooledCallsFor u e \<le> 1" by (simp add: pooledCallsFor_def)
qed

lemma pooled_tasks_bounded:
  assumes "runEngine as NewTradingEngine = Some e"
  shows "pooledCalls e \<le> 10 \<and> pooledCallsFor u e \<le> 1"
  using poolInvariant_bounds [OF runEngine_invariant [OF poolInvariant_initial assms]] by simp

text \<open>
  C3: at most 10 external call sequences are claimed to run at once, and never two for
  the same user. For the workers this holds in every schedule
  (\<open>pooled_tasks_bounded\<close>). The test path takes neither a slot nor the lock of
  the user: in the schedule \<open>elevenCalls\<close> eleven call sequences are in flight, two of
  them for user 1.
\<close>

theorem test_path_bypasses_pool_and_lock:
  "map_option callsInFlight (runEngine elevenCalls NewTradingEngine) = Some 11
   \<and> map_option (callsInFlightFor 1) (runEngine elevenCalls NewTradingEngine) = Some 2
   \<and> map_option pooledCalls (runEngine elevenCalls NewTradingEngine) = Some 10"
  by code_simp

end
